theory Spec2Isabelle
  imports Main "HOL-Library.Sublist"
begin

section \<open>Rate-limit retry helper (\<^verbatim>\<open>_shared/github-client.ts\<close>)\<close>

text \<open>
  A value thrown by the wrapped function. \<open>ThrownError st msg\<close> is an \<^verbatim>\<open>Error\<close> instance,
  \<open>ThrownValue st str\<close> any other thrown value with \<open>str\<close> its \<^verbatim>\<open>String(...)\<close> rendering.
  In both, \<open>st\<close> is the numeric \<^verbatim>\<open>status\<close> property when the value is an object that has
  one (\<open>None\<close> otherwise; a status that is not a number never equals 403 or 429 under
  \<^verbatim>\<open>===\<close> and behaves like an absent one).
\<close>

datatype thrown = ThrownError "int option" string | ThrownValue "int option" string

fun status_of :: "thrown \<Rightarrow> int option" where
  "status_of (ThrownError st _) = st"
| "status_of (ThrownValue st _) = st"

text \<open>\<^verbatim>\<open>error instanceof Error ? error : new Error(String(error))\<close>\<close>

fun as_Error :: "thrown \<Rightarrow> thrown" where
  "as_Error (ThrownError st msg) = ThrownError st msg"
| "as_Error (ThrownValue st str) = ThrownError None str"

datatype 'a attempt = Resolves 'a | Rejects thrown

text \<open>What the wrapper does to the outside world: the \<open>i\<close>-th call of \<^verbatim>\<open>fn\<close> (counted
  from 0) and a \<^verbatim>\<open>setTimeout\<close> wait of so many milliseconds.\<close>

datatype event = Invoke nat | Sleep int

text \<open>
  The \<^verbatim>\<open>for (let i = 0; i < maxRetries; i++)\<close> loop. The wrapped function is effectful, so
  it is given as the outcome of each successive call: \<open>fn i\<close> is what call number \<open>i\<close>
  does. The result is \<open>Inr v\<close> for \<^verbatim>\<open>return v\<close> and \<open>Inl e\<close> for \<^verbatim>\<open>throw e\<close>.
\<close>

function retry_loop ::
  "(nat \<Rightarrow> 'a attempt) \<Rightarrow> nat \<Rightarrow> int \<Rightarrow> nat \<Rightarrow> thrown option \<Rightarrow> event list
     \<Rightarrow> (thrown + 'a) \<times> event list" where
  "retry_loop fn maxRetries delay i lastError tr =
     (if i < maxRetries then
        (case fn i of
           Resolves v \<Rightarrow> (Inr v, tr @ [Invoke i])
         | Rejects err \<Rightarrow>
             (if status_of err = Some 403 \<or> status_of err = Some 429
              then retry_loop fn maxRetries delay (Suc i) (Some (as_Error err))
                     (tr @ [Invoke i, Sleep (delay * (int i + 1))])
              else (Inl (as_Error err), tr @ [Invoke i])))
      else (Inl (case lastError of Some e \<Rightarrow> e
                 | None \<Rightarrow> ThrownError None ''Max retries exceeded''), tr))"
  by pat_completeness auto
termination
  by (relation "measure (\<lambda>(fn, maxRetries, delay, i, lastError, tr). maxRetries - i)") auto

text \<open>\<^verbatim>\<open>withRetry(fn, maxRetries = 3, delay = 1000)\<close>: callers that omit the last two
  arguments get \<open>withRetry fn 3 1000\<close>.\<close>

definition withRetry :: "(nat \<Rightarrow> 'a attempt) \<Rightarrow> nat \<Rightarrow> int \<Rightarrow> (thrown + 'a) \<times> event list" where
  "withRetry fn maxRetries delay = retry_loop fn maxRetries delay 0 None []"

definition rate_limited :: "'a attempt \<Rightarrow> bool" where
  "rate_limited a = (case a of Resolves _ \<Rightarrow> False
                     | Rejects err \<Rightarrow> status_of err = Some 403 \<or> status_of err = Some 429)"

fun err_of :: "'a attempt \<Rightarrow> thrown option" where
  "err_of (Rejects e) = Some (as_Error e)"
| "err_of (Resolves _) = None"

definition backoff_trace :: "int \<Rightarrow> nat \<Rightarrow> nat \<Rightarrow> event list" where
  "backoff_trace delay i k = concat (map (\<lambda>j. [Invoke j, Sleep (delay * (int j + 1))]) [i..<k])"

text \<open>Sample wrapped functions: always rate limited, a server error, success on the second call.\<close>

definition always_429 :: "nat \<Rightarrow> nat attempt" where
  "always_429 i = Rejects (ThrownError (Some 429) ''rate limit exceeded'')"

definition fails_500 :: "nat \<Rightarrow> nat attempt" where
  "fails_500 i = Rejects (ThrownError (Some 500) ''server error'')"

definition second_ok :: "nat \<Rightarrow> nat attempt" where
  "second_ok i = (if i = 0 then Rejects (ThrownError (Some 403) ''forbidden'') else Resolves 7)"

section \<open>Task-key detection (\<^verbatim>\<open>_shared/auto-link.ts\<close>)\<close>

text \<open>
  Texts are \<open>string\<close>s, one \<open>char\<close> per code unit. The pattern below only ever matches
  ASCII code units, and under the \<^verbatim>\<open>i\<close> flag without the \<^verbatim>\<open>u\<close> flag a code unit outside
  ASCII never canonicalizes to an ASCII one, so every other code unit just fails to match.
\<close>

subsection \<open>A backtracking matcher for the regular expressions used\<close>

datatype regex =
  Lit char
| Class "(char \<times> char) list"
| Seq regex regex
| Star regex
| Group regex

text \<open>The members of a character class given by its ranges, \<^verbatim>\<open>[A-Z0-9]\<close> being
  \<open>Class [(CHR ''A'', CHR ''Z''), (CHR ''0'', CHR ''9'')]\<close>.\<close>

definition char_range :: "char \<times> char \<Rightarrow> char list" where
  "char_range r = map char_of [of_char (fst r) ..< Suc (of_char (snd r))]"

definition class_chars :: "(char \<times> char) list \<Rightarrow> char list" where
  "class_chars rs = concat (map char_range rs)"

text \<open>\<^verbatim>\<open>Canonicalize\<close> under the \<^verbatim>\<open>i\<close> flag: upper-casing, here of the ASCII letters.\<close>

definition canonicalize :: "char \<Rightarrow> char" where
  "canonicalize c =
     (if (97::nat) \<le> of_char c \<and> of_char c \<le> (122::nat) then char_of (of_char c - (32::nat)) else c)"

text \<open>
  \<open>matches r s\<close> lists the ways \<open>r\<close> matches a prefix of \<open>s\<close>, in the order a backtracking
  matcher tries them (greedy repetition first). Each is the text captured by the group,
  if the group took part, and the rest of the input. A repetition step that consumes
  nothing is rejected, as in ECMAScript. All matching is case-insensitive.
\<close>

fun matches :: "regex \<Rightarrow> string \<Rightarrow> (string option \<times> string) list" where
  "matches (Lit a) s =
     (case s of [] \<Rightarrow> []
      | c # cs \<Rightarrow> if canonicalize c = canonicalize a then [(None, cs)] else [])"
| "matches (Class rs) s =
     (case s of [] \<Rightarrow> []
      | c # cs \<Rightarrow> if list_ex (\<lambda>m. canonicalize m = canonicalize c) (class_chars rs)
                  then [(None, cs)] else [])"
| "matches (Seq a b) s =
     concat (map (\<lambda>(c1, s1). map (\<lambda>(c2, s2). (if c2 = None then c1 else c2, s2)) (matches b s1))
                 (matches a s))"
| "matches (Star a) s =
     concat (map (\<lambda>(c1, s1). if length s1 < length s
                              then map (\<lambda>(c2, s2). (if c2 = None then c1 else c2, s2))
                                       (matches (Star a) s1)
                              else [])
                 (matches a s))
     @ [(None, s)]"
| "matches (Group a) s =
     map (\<lambda>(c, s1). (Some (take (length s - length s1) s), s1)) (matches a s)"

text \<open>\<^verbatim>\<open>/TSK-([A-Z0-9]+(?:-[A-Z0-9]+)*)/gi\<close>, with \<^verbatim>\<open>x+\<close> written \<^verbatim>\<open>xx*\<close>.\<close>

definition Plus :: "regex \<Rightarrow> regex" where
  "Plus r = Seq r (Star r)"

definition alnum_class :: regex where
  "alnum_class = Class [(CHR ''A'', CHR ''Z''), (CHR ''0'', CHR ''9'')]"

definition hyphen_group :: regex where
  "hyphen_group = Seq (Lit CHR ''-'') (Plus alnum_class)"

definition tsk_regex :: regex where
  "tsk_regex =
     Seq (Lit CHR ''T'') (Seq (Lit CHR ''S'') (Seq (Lit CHR ''K'') (Seq (Lit CHR ''-'')
       (Group (Seq (Plus alnum_class) (Star hyphen_group))))))"

text \<open>
  \<^verbatim>\<open>text.matchAll(regex)\<close> for a global regex: search from the current position for the
  first place where the pattern matches, yield the first match there, go on behind it
  (one code unit further after an empty match). The result lists \<^verbatim>\<open>match[1]\<close> of every
  match; \<open>s\<close> is the text from the current position on.
\<close>

function matchAll :: "regex \<Rightarrow> string \<Rightarrow> string option list" where
  "matchAll r s =
     (case matches r s of
        [] \<Rightarrow> (case s of [] \<Rightarrow> [] | c # cs \<Rightarrow> matchAll r cs)
      | (cap, rest) # alternatives \<Rightarrow>
          cap # (if length rest < length s then matchAll r rest
                 else (case s of [] \<Rightarrow> [] | c # cs \<Rightarrow> matchAll r cs)))"
  by pat_completeness auto
termination
  by (relation "measure (\<lambda>(r, s). length s)") auto

text \<open>\<^verbatim>\<open>keys.add(fullKey)\<close> on a \<^verbatim>\<open>Set\<close>, which keeps insertion order.\<close>

definition set_add :: "'a list \<Rightarrow> 'a \<Rightarrow> 'a list" where
  "set_add keys k = (if k \<in> set keys then keys else keys @ [k])"

text \<open>The template \<^verbatim>\<open>`TSK-${match[1]}`\<close>; a group that took no part is \<^verbatim>\<open>undefined\<close>.\<close>

definition fullKey :: "string option \<Rightarrow> string" where
  "fullKey m1 = ''TSK-'' @ (case m1 of Some g \<Rightarrow> g | None \<Rightarrow> ''undefined'')"

definition detectTarefaKeys :: "string \<Rightarrow> string list" where
  "detectTarefaKeys text =
     (if text = [] then []
      else foldl set_add [] (map fullKey (matchAll tsk_regex text)))"

subsection \<open>The detector as the specification words it\<close>

text \<open>
  An alphanumeric character, case-insensitively; a key remainder: one or more groups of
  such characters separated by single hyphens; a key prefix: \<^verbatim>\<open>TSK-\<close> in any casing.
\<close>

definition alnum :: "char \<Rightarrow> bool" where
  "alnum c = (canonicalize c \<in> set (class_chars [(CHR ''A'', CHR ''Z''), (CHR ''0'', CHR ''9'')]))"

fun split_hyphen :: "string \<Rightarrow> string list" where
  "split_hyphen [] = [[]]"
| "split_hyphen (c # cs) =
     (if c = CHR ''-'' then [] # split_hyphen cs
      else (case split_hyphen cs of g # gs \<Rightarrow> (c # g) # gs | [] \<Rightarrow> [[c]]))"

definition key_rest :: "string \<Rightarrow> bool" where
  "key_rest r = (\<forall>g \<in> set (split_hyphen r). g \<noteq> [] \<and> (\<forall>c \<in> set g. alnum c))"

definition tsk_prefix :: "string \<Rightarrow> bool" where
  "tsk_prefix p = (map canonicalize p = ''TSK-'')"

text \<open>
  The specification's scanner. \<open>key_tail s\<close> is the longest run of hyphen-separated
  groups at the head of \<open>s\<close>; \<open>match_here s\<close> the remainder of the key that starts at the
  head of \<open>s\<close>, if one does; \<open>scan_keys\<close> collects the remainders from left to right,
  going on behind each key found.
\<close>

fun key_tail :: "string \<Rightarrow> string" where
  "key_tail [] = []"
| "key_tail (c # cs) =
     (if alnum c then c # key_tail cs
      else if c = CHR ''-'' \<and> (case cs of [] \<Rightarrow> False | d # ds \<Rightarrow> alnum d) then c # key_tail cs
      else [])"

definition match_here :: "string \<Rightarrow> string option" where
  "match_here s =
     (if tsk_prefix (take 4 s) \<and> (case drop 4 s of [] \<Rightarrow> False | c # cs \<Rightarrow> alnum c)
      then Some (key_tail (drop 4 s)) else None)"

function scan_keys :: "string \<Rightarrow> string list" where
  "scan_keys [] = []"
| "scan_keys (c # cs) =
     (case match_here (c # cs) of
        Some r \<Rightarrow> r # scan_keys (drop (4 + length r) (c # cs))
      | None \<Rightarrow> scan_keys cs)"
  by pat_completeness auto
termination
  by (relation "measure length") auto

text \<open>Duplicates removed, the first occurrence of each key kept.\<close>

fun dedup :: "'a list \<Rightarrow> 'a list" where
  "dedup [] = []"
| "dedup (x # xs) = x # dedup (filter (\<lambda>y. y \<noteq> x) xs)"

definition spec_detect :: "string \<Rightarrow> string list" where
  "spec_detect text = dedup (map (\<lambda>r. ''TSK-'' @ r) (scan_keys text))"

definition example_text :: string where
  "example_text = ''fix TSK-12 and tsk-12 again, also TSK-AB-7''"


section \<open>The relational store\<close>

text \<open>
  Tables are lists of rows, as the Supabase client returns them; only the columns the
  modelled functions read or write are kept. Identifiers (\<^verbatim>\<open>uuid\<close> columns) are strings.
  Column names follow the migrations; a prefix tells the tables apart.
\<close>

type_synonym uuid = string

datatype AppRole = admin | tech_lead | developer | viewer

record project_member =
  pm_user_id :: uuid
  pm_project_id :: uuid
  pm_role :: AppRole

record pull_request =
  pr_id :: uuid
  pr_repo_id :: uuid
  pr_author_id :: "uuid option"

record project_repo =
  prj_project_id :: uuid
  prj_repo_id :: uuid

record tarefa =
  t_id :: uuid
  t_project_id :: uuid
  t_key :: string

text \<open>The \<^verbatim>\<open>metadata\<close> JSON of a link: written by the auto-linker or by the manual route.\<close>

datatype entity_type = branch | commit | pull_request_entity

datatype link_metadata =
  AutoLinked entity_type string "string option"
| ManualLink

record tarefa_git_link =
  l_tarefa_id :: uuid
  l_provider :: string
  l_branch :: "string option"
  l_commit_sha :: "string option"
  l_pr_number :: "int option"
  l_metadata :: link_metadata

record oauth_state =
  os_state :: string
  os_project_id :: uuid
  os_user_id :: uuid
  os_expires_at :: int

datatype connection_status = active | error | revoked

record provider_connection =
  pc_id :: uuid
  pc_project_id :: uuid
  pc_provider :: string
  pc_owner_type :: string
  pc_owner_name :: string
  pc_installation_id :: "string option"
  pc_status :: connection_status
  pc_secrets_ref :: "string option"
  pc_created_by :: "uuid option"
  pc_github_user_id :: "string option"
  pc_username :: "string option"
  pc_access_token_encrypted :: "string option"
  pc_scopes :: "string list"
  pc_updated_at :: "int option"
  pc_last_sync_at :: "int option"

record repo =
  r_id :: uuid
  r_connection_id :: "uuid option"
  r_selected :: bool

record audit_event =
  ae_actor_id :: uuid
  ae_action :: string
  ae_entity_type :: string
  ae_entity_id :: "uuid option"

record db =
  project_members :: "project_member list"
  pull_requests :: "pull_request list"
  project_repos :: "project_repo list"
  tarefas :: "tarefa list"
  tarefa_git_links :: "tarefa_git_link list"
  github_oauth_states :: "oauth_state list"
  provider_connections :: "provider_connection list"
  repos :: "repo list"
  audit_events :: "audit_event list"

text \<open>
  \<^verbatim>\<open>.maybeSingle()\<close> of the Supabase client on the rows a query selects: no row gives
  \<^verbatim>\<open>{ data: null, error: null }\<close>, one row gives that row, and more than one row gives
  \<^verbatim>\<open>{ data: null, error }\<close>. The pair is \<open>(data, error is set)\<close>.
\<close>

fun maybeSingle :: "'a list \<Rightarrow> 'a option \<times> bool" where
  "maybeSingle [] = (None, False)"
| "maybeSingle [r] = (Some r, False)"
| "maybeSingle (r # r' # rs) = (None, True)"


section \<open>Permission checks (\<^verbatim>\<open>_shared/permissions.ts\<close>)\<close>

definition getProjectRole :: "db \<Rightarrow> uuid \<Rightarrow> uuid \<Rightarrow> AppRole option" where
  "getProjectRole d userId projectId =
     (case maybeSingle (filter (\<lambda>m. pm_user_id m = userId \<and> pm_project_id m = projectId)
                          (project_members d)) of
        (data, err) \<Rightarrow>
          (if err \<or> data = None then None else map_option pm_role data))"

definition canConnectGit :: "db \<Rightarrow> uuid \<Rightarrow> uuid \<Rightarrow> bool" where
  "canConnectGit d userId projectId = (getProjectRole d userId projectId = Some admin)"

definition canReviewPR :: "db \<Rightarrow> uuid \<Rightarrow> uuid \<Rightarrow> bool" where
  "canReviewPR d userId prId =
     (case fst (maybeSingle (filter (\<lambda>p. pr_id p = prId) (pull_requests d))) of
        None \<Rightarrow> False
      | Some pr \<Rightarrow>
          if pr_author_id pr = Some userId then False
          else (case fst (maybeSingle (filter (\<lambda>r. prj_repo_id r = pr_repo_id pr) (project_repos d))) of
                  None \<Rightarrow> False
                | Some projectRepo \<Rightarrow> getProjectRole d userId (prj_project_id projectRepo) \<noteq> None))"

text \<open>
  The row-level-security policy "Reviewers can create reviews" of table \<^verbatim>\<open>pr_reviews\<close> (the
  migration kept in \<^verbatim>\<open>ConnectGitWizard.tsx\<close>), for a review whose \<^verbatim>\<open>reviewer_id\<close> is the
  caller: \<^verbatim>\<open>EXISTS\<close> over the join of the pull request, its repository, the projects the
  repository is linked to and the caller's memberships, the author being another user (with
  a \<^verbatim>\<open>NULL\<close> author the comparison \<^verbatim>\<open>!=\<close> is unknown and the row is left out).
\<close>

definition reviewers_can_create_reviews :: "db \<Rightarrow> uuid \<Rightarrow> uuid \<Rightarrow> bool" where
  "reviewers_can_create_reviews d uid prId =
     (\<exists>pr \<in> set (pull_requests d). \<exists>r \<in> set (repos d).
      \<exists>prj \<in> set (project_repos d). \<exists>pm \<in> set (project_members d).
        r_id r = pr_repo_id pr \<and> prj_repo_id prj = r_id r \<and> pm_project_id pm = prj_project_id prj
        \<and> pr_id pr = prId \<and> pm_user_id pm = uid
        \<and> pr_author_id pr \<noteq> None \<and> pr_author_id pr \<noteq> Some uid)"

text \<open>The projects a repository is linked to, in table order.\<close>

definition linked_projects :: "db \<Rightarrow> uuid \<Rightarrow> uuid list" where
  "linked_projects d repoId =
     map prj_project_id (filter (\<lambda>r. prj_repo_id r = repoId) (project_repos d))"

text \<open>A store with every table empty, and sample stores for the permission checks:
  in \<open>review_db\<close> the repository of pull request \<open>pr1\<close> is linked to one project, in
  \<open>review_db2\<close> to two projects, and \<open>bob\<close> is a member of each of them.\<close>

definition empty_db :: db where
  "empty_db = \<lparr> project_members = [], pull_requests = [], project_repos = [], tarefas = [],
     tarefa_git_links = [], github_oauth_states = [], provider_connections = [], repos = [],
     audit_events = [] \<rparr>"

definition review_db :: db where
  "review_db = empty_db \<lparr>
     project_members := [\<lparr> pm_user_id = ''bob'', pm_project_id = ''p1'', pm_role = viewer \<rparr>],
     pull_requests := [\<lparr> pr_id = ''pr1'', pr_repo_id = ''repo1'', pr_author_id = Some ''alice'' \<rparr>],
     project_repos := [\<lparr> prj_project_id = ''p1'', prj_repo_id = ''repo1'' \<rparr>],
     repos := [\<lparr> r_id = ''repo1'', r_connection_id = Some ''conn-0'', r_selected = True \<rparr>] \<rparr>"

definition review_db2 :: db where
  "review_db2 = empty_db \<lparr>
     project_members := [\<lparr> pm_user_id = ''bob'', pm_project_id = ''p1'', pm_role = developer \<rparr>,
                         \<lparr> pm_user_id = ''bob'', pm_project_id = ''p2'', pm_role = developer \<rparr>],
     pull_requests := [\<lparr> pr_id = ''pr1'', pr_repo_id = ''repo1'', pr_author_id = Some ''alice'' \<rparr>],
     project_repos := [\<lparr> prj_project_id = ''p1'', prj_repo_id = ''repo1'' \<rparr>,
                       \<lparr> prj_project_id = ''p2'', prj_repo_id = ''repo1'' \<rparr>],
     repos := [\<lparr> r_id = ''repo1'', r_connection_id = Some ''conn-0'', r_selected = True \<rparr>] \<rparr>"


section \<open>Creating the associations (\<^verbatim>\<open>_shared/auto-link.ts\<close>)\<close>

text \<open>The \<^verbatim>\<open>metadata\<close> argument. A field the caller omits is \<open>None\<close>.\<close>

record link_request =
  branchName :: "string option"
  commitSha :: "string option"
  prNumber :: "int option"
  detectedFrom :: "string option"

text \<open>JavaScript truthiness of an optional string and of an optional number.\<close>

definition truthy :: "string option \<Rightarrow> bool" where
  "truthy v = (case v of None \<Rightarrow> False | Some s \<Rightarrow> s \<noteq> [])"

definition truthy_num :: "int option \<Rightarrow> bool" where
  "truthy_num v = (case v of None \<Rightarrow> False | Some n \<Rightarrow> n \<noteq> 0)"

text \<open>
  \<^verbatim>\<open>.match(existingLinkQuery)\<close>: equality on \<^verbatim>\<open>tarefa_id\<close> and \<^verbatim>\<open>provider\<close>, and on each of
  \<^verbatim>\<open>branch\<close>, \<^verbatim>\<open>commit_sha\<close>, \<^verbatim>\<open>pr_number\<close> only when the request carries a truthy value
  for it.
\<close>

definition existingLinkQuery :: "uuid \<Rightarrow> link_request \<Rightarrow> tarefa_git_link \<Rightarrow> bool" where
  "existingLinkQuery tarefaId metadata l =
     (l_tarefa_id l = tarefaId \<and> l_provider l = ''github''
      \<and> (truthy (branchName metadata) \<longrightarrow> l_branch l = branchName metadata)
      \<and> (truthy (commitSha metadata) \<longrightarrow> l_commit_sha l = commitSha metadata)
      \<and> (truthy_num (prNumber metadata) \<longrightarrow> l_pr_number l = prNumber metadata))"

definition linkData :: "uuid \<Rightarrow> entity_type \<Rightarrow> string \<Rightarrow> link_request \<Rightarrow> tarefa_git_link" where
  "linkData tarefaId entityType entityId metadata =
     \<lparr> l_tarefa_id = tarefaId, l_provider = ''github'',
       l_branch = (if truthy (branchName metadata) then branchName metadata else None),
       l_commit_sha = (if truthy (commitSha metadata) then commitSha metadata else None),
       l_pr_number = (if truthy_num (prNumber metadata) then prNumber metadata else None),
       l_metadata = AutoLinked entityType entityId (detectedFrom metadata) \<rparr>"

text \<open>
  Modelled from the spec: the declaration of the table \<^verbatim>\<open>tarefa_git_links\<close> is not among
  the sources. The specification gives the table no constraint of its own (links are
  deduplicated by the existence query, absent fields taking part as no constraint), so
  \<^verbatim>\<open>.insert(linkData)\<close>, whose result the code does not read, appends the row.
\<close>

definition insert_link :: "tarefa_git_link \<Rightarrow> db \<Rightarrow> db" where
  "insert_link l d = d \<lparr> tarefa_git_links := tarefa_git_links d @ [l] \<rparr>"

text \<open>One turn of the \<^verbatim>\<open>for (const tarefa of tarefas)\<close> loop.\<close>

definition link_tarefa :: "entity_type \<Rightarrow> string \<Rightarrow> link_request \<Rightarrow> db \<Rightarrow> tarefa \<Rightarrow> db" where
  "link_tarefa entityType entityId metadata d tarefa =
     (case fst (maybeSingle (filter (existingLinkQuery (t_id tarefa) metadata) (tarefa_git_links d))) of
        Some existing \<Rightarrow> d
      | None \<Rightarrow> insert_link (linkData (t_id tarefa) entityType entityId metadata) d)"

definition createAutoLinks ::
  "db \<Rightarrow> string list \<Rightarrow> uuid \<Rightarrow> uuid \<Rightarrow> entity_type \<Rightarrow> string \<Rightarrow> link_request \<Rightarrow> db" where
  "createAutoLinks d tarefaKeys projectId repoId entityType entityId metadata =
     (if tarefaKeys = [] then d
      else let found = filter (\<lambda>t. t_project_id t = projectId \<and> t_key t \<in> set tarefaKeys) (tarefas d)
           in if found = [] then d
              else foldl (link_tarefa entityType entityId metadata) d found)"

text \<open>\<^verbatim>\<open>processAutoLink\<close> returns the keys; the second component is the store afterwards.\<close>

definition processAutoLink ::
  "db \<Rightarrow> string \<Rightarrow> uuid \<Rightarrow> uuid \<Rightarrow> entity_type \<Rightarrow> string \<Rightarrow> link_request \<Rightarrow> string list \<times> db" where
  "processAutoLink d text projectId repoId entityType entityId metadata =
     (let keys = detectTarefaKeys text
      in (keys,
          if keys \<noteq> []
          then createAutoLinks d keys projectId repoId entityType entityId
                 (metadata \<lparr> detectedFrom := Some (take 200 text) \<rparr>)
          else d))"

text \<open>
  Sample data. In \<open>links_db\<close> task \<open>t1\<close> (key \<open>TSK-12\<close> of project \<open>p1\<close>) carries two
  manual links to pull request 42 on branch \<open>feat\<close>, one per commit; \<open>pr42\<close> is what the
  pull-request routes pass for that pull request.
\<close>

definition pr42 :: link_request where
  "pr42 = \<lparr> branchName = Some ''feat'', commitSha = None, prNumber = Some 42, detectedFrom = None \<rparr>"

definition tasks_db :: db where
  "tasks_db = empty_db \<lparr> tarefas := [\<lparr> t_id = ''t1'', t_project_id = ''p1'', t_key = ''TSK-12'' \<rparr>] \<rparr>"





section \<open>HTTP, configuration and the outside world\<close>

datatype body = NoBody | Json "(string \<times> string) list"

record response =
  status :: nat
  location :: "string option"
  body :: body

text \<open>The module constants read from the environment, after their \<^verbatim>\<open>|| ""\<close> defaults.\<close>

record config =
  GITHUB_CLIENT_ID :: string
  GITHUB_CLIENT_SECRET :: string
  GITHUB_REDIRECT_URI :: string
  FRONTEND_URL :: string
  SUPABASE_URL :: string

text \<open>A request: its method and the \<^verbatim>\<open>code\<close> and \<^verbatim>\<open>state\<close> query parameters
  (\<^verbatim>\<open>searchParams.get\<close>, \<open>None\<close> for \<^verbatim>\<open>null\<close>).\<close>

record request =
  req_method :: string
  code_param :: "string option"
  state_param :: "string option"

text \<open>An interaction with the outside that may throw.\<close>

datatype 'a io = Throws | Returns 'a

text \<open>The JSON GitHub answers the code exchange with (\<open>error_code\<close> is its \<^verbatim>\<open>error\<close>
  field), and the account it answers \<^verbatim>\<open>/user\<close> with: \<open>user_id\<close> is \<^verbatim>\<open>id.toString()\<close>,
  \<open>None\<close> when there is no \<^verbatim>\<open>id\<close> and \<^verbatim>\<open>toString\<close> throws.\<close>

record token_data =
  access_token :: "string option"
  scope :: "string option"
  error_code :: "string option"
  error_description :: "string option"

record token_response =
  token_ok :: bool
  token_json :: "token_data io"

record github_user =
  user_id :: "string option"
  login :: string

record user_response =
  user_ok :: bool
  user_json :: "github_user io"

text \<open>
  What a handler run meets outside the store: the clock, the two GitHub calls of the
  callback, the random state and the row id the database generates, and the places where
  the code reads a database error: \<open>state_select_error\<close> for the state lookup and
  \<open>connection_write_error\<close> (the error message) for the write to
  \<^verbatim>\<open>provider_connections\<close>. \<open>sync_listing\<close> is the repository listing of the sync (the
  number of repositories).
\<close>

record world =
  now :: int
  random_uuid :: string
  generated_id :: uuid
  state_select_error :: bool
  token_fetch :: "token_response io"
  user_fetch :: "user_response io"
  connection_write_error :: "string option"
  sync_listing :: "nat io"

text \<open>The calls made to GitHub, in order.\<close>

datatype call = ExchangeCode string | GetUser string | RevokeToken string | GetInstallation string

subsection \<open>String helpers\<close>

text \<open>\<^verbatim>\<open>a || b\<close> on strings, \<^verbatim>\<open>s.split(",")\<close>, \<^verbatim>\<open>s.split(sep)[0]\<close>, \<^verbatim>\<open>s.includes(sub)\<close>.\<close>

definition js_or :: "string option \<Rightarrow> string \<Rightarrow> string" where
  "js_or v dflt = (case v of None \<Rightarrow> dflt | Some s \<Rightarrow> if s = [] then dflt else s)"

fun js_split :: "char \<Rightarrow> string \<Rightarrow> string list" where
  "js_split sep [] = [[]]"
| "js_split sep (c # cs) =
     (if c = sep then [] # js_split sep cs
      else (case js_split sep cs of g # gs \<Rightarrow> (c # g) # gs | [] \<Rightarrow> [[c]]))"

fun before_first :: "string \<Rightarrow> string \<Rightarrow> string" where
  "before_first sep [] = []"
| "before_first sep (c # cs) = (if prefix sep (c # cs) then [] else c # before_first sep cs)"

fun js_includes :: "string \<Rightarrow> string \<Rightarrow> bool" where
  "js_includes [] sub = (sub = [])"
| "js_includes (c # cs) sub = (prefix sub (c # cs) \<or> js_includes cs sub)"

text \<open>\<^verbatim>\<open>encodeURIComponent\<close> on the bytes of the text.\<close>

definition unreserved :: "char \<Rightarrow> bool" where
  "unreserved c =
     (c \<in> set ''ABCDEFGHIJKLMNOPQRSTUVWXYZabcdefghijklmnopqrstuvwxyz0123456789-_.!~*()''
      \<or> c = CHR 0x27)"

definition hex_digit :: "nat \<Rightarrow> char" where
  "hex_digit n = ''0123456789ABCDEF'' ! n"

definition encodeURIComponent :: "string \<Rightarrow> string" where
  "encodeURIComponent s =
     concat (map (\<lambda>c. if unreserved c then [c]
                        else [CHR ''%'', hex_digit (of_char c div 16), hex_digit (of_char c mod 16)]) s)"

definition redirect :: "string \<Rightarrow> response" where
  "redirect url = \<lparr> status = 302, location = Some url, body = NoBody \<rparr>"

definition json_error :: "nat \<Rightarrow> string \<Rightarrow> response" where
  "json_error st message = \<lparr> status = st, location = None, body = Json [(''error'', message)] \<rparr>"

subsection \<open>Writes shared by the handlers\<close>

definition delete_state :: "string \<Rightarrow> db \<Rightarrow> db" where
  "delete_state st d =
     d \<lparr> github_oauth_states := filter (\<lambda>s. os_state s \<noteq> st) (github_oauth_states d) \<rparr>"

definition update_connection :: "uuid \<Rightarrow> (provider_connection \<Rightarrow> provider_connection) \<Rightarrow> db \<Rightarrow> db" where
  "update_connection connectionId f d =
     d \<lparr> provider_connections :=
           map (\<lambda>c. if pc_id c = connectionId then f c else c) (provider_connections d) \<rparr>"

definition insert_connection :: "provider_connection \<Rightarrow> db \<Rightarrow> db" where
  "insert_connection c d = d \<lparr> provider_connections := provider_connections d @ [c] \<rparr>"

text \<open>\<^verbatim>\<open>logAuditEvent\<close> (\<^verbatim>\<open>_shared/audit.ts\<close>); a failure of the insert is swallowed there.\<close>

definition logAuditEvent :: "string \<Rightarrow> string \<Rightarrow> string \<Rightarrow> uuid option \<Rightarrow> db \<Rightarrow> db" where
  "logAuditEvent actorId action entityType entityId d =
     d \<lparr> audit_events := audit_events d @
           [\<lparr> ae_actor_id = (if actorId = ''system'' then ''00000000-0000-0000-0000-000000000000''
                              else actorId),
              ae_action = action, ae_entity_type = entityType, ae_entity_id = entityId \<rparr>] \<rparr>"

text \<open>The state query of both callbacks: \<^verbatim>\<open>.eq("state", state).gt("expires_at", now)
  .maybeSingle()\<close>, \<open>None\<close> standing for \<^verbatim>\<open>stateError || !oauthState\<close>.\<close>

definition valid_states :: "db \<Rightarrow> string \<Rightarrow> int \<Rightarrow> oauth_state list" where
  "valid_states d st t = filter (\<lambda>s. os_state s = st \<and> t < os_expires_at s) (github_oauth_states d)"

definition select_state :: "world \<Rightarrow> db \<Rightarrow> string \<Rightarrow> oauth_state option" where
  "select_state w d st =
     (if state_select_error w then None else fst (maybeSingle (valid_states d st (now w))))"

definition existingConnection :: "db \<Rightarrow> uuid \<Rightarrow> provider_connection option" where
  "existingConnection d projectId =
     fst (maybeSingle (filter (\<lambda>c. pc_project_id c = projectId \<and> pc_provider c = ''github'')
                         (provider_connections d)))"

text \<open>\<^verbatim>\<open>tokenData.scope?.split(",") || []\<close>\<close>

definition scopes_of :: "token_data \<Rightarrow> string list" where
  "scopes_of tokenData = (case scope tokenData of None \<Rightarrow> [] | Some s \<Rightarrow> js_split CHR '','' s)"


section \<open>The function \<^verbatim>\<open>github-oauth\<close>\<close>

text \<open>\<^verbatim>\<open>GITHUB_REDIRECT_URI.split("/callback")[0] || "http://localhost:5173"\<close> and the error
  redirect every failing branch of \<^verbatim>\<open>handleOAuthCallback\<close> builds.\<close>

definition frontendUrl :: "config \<Rightarrow> string" where
  "frontendUrl cfg =
     js_or (Some (before_first ''/callback'' (GITHUB_REDIRECT_URI cfg))) ''http://localhost:5173''"

definition error_redirect :: "config \<Rightarrow> string \<Rightarrow> response" where
  "error_redirect cfg message =
     redirect (frontendUrl cfg @ ''/project/error?message='' @ encodeURIComponent message)"

subsection \<open>\<^verbatim>\<open>POST /start\<close>\<close>

text \<open>
  \<^verbatim>\<open>handleOAuthStart\<close>, with \<open>projectId\<close> the field of the JSON body. The state column is the
  primary key of \<^verbatim>\<open>github_oauth_states\<close>, so inserting a state that is already stored is
  the \<^verbatim>\<open>stateError\<close> case.
\<close>

definition authorizeUrl :: "config \<Rightarrow> string \<Rightarrow> string" where
  "authorizeUrl cfg st =
     (let supabaseUrl = js_or (Some (SUPABASE_URL cfg)) ''https://hgbnmrhzxewziagjdjke.supabase.co'';
          callbackUrl = (if GITHUB_REDIRECT_URI cfg \<noteq> []
                            \<and> js_includes (GITHUB_REDIRECT_URI cfg) ''github-oauth-callback''
                         then GITHUB_REDIRECT_URI cfg
                         else supabaseUrl @ ''/functions/v1/github-oauth-callback'')
      in ''https://github.com/login/oauth/authorize?client_id='' @ GITHUB_CLIENT_ID cfg
         @ ''&redirect_uri='' @ encodeURIComponent callbackUrl
         @ ''&scope='' @ encodeURIComponent ''repo read:org'' @ ''&state='' @ st)"

definition handleOAuthStart :: "config \<Rightarrow> world \<Rightarrow> db \<Rightarrow> uuid \<Rightarrow> string option \<Rightarrow> response \<times> db" where
  "handleOAuthStart cfg w d userId projectId =
     (case projectId of
        None \<Rightarrow> (json_error 400 ''projectId is required'', d)
      | Some pid \<Rightarrow>
          if pid = [] then (json_error 400 ''projectId is required'', d)
          else if \<not> canConnectGit d userId pid
          then (json_error 403 ''Forbidden: Only admins can connect GitHub'', d)
          else
            let st = random_uuid w;
                expiresAt = now w + 5 * 60 * 1000
            in if st \<in> os_state ` set (github_oauth_states d)
               then (json_error 500 ''Failed to initiate OAuth'', d)
               else
                 let d' = d \<lparr> github_oauth_states := github_oauth_states d @
                            [\<lparr> os_state = st, os_project_id = pid, os_user_id = userId,
                               os_expires_at = expiresAt \<rparr>] \<rparr>
                 in if GITHUB_CLIENT_ID cfg = [] \<or> GITHUB_REDIRECT_URI cfg = []
                    then (\<lparr> status = 500, location = None,
                            body = Json [(''error'', ''GitHub OAuth not configured. Please set GITHUB_CLIENT_ID and GITHUB_REDIRECT_URI environment variables.''),
                                         (''details'', ''Contact your administrator to configure GitHub OAuth integration.'')] \<rparr>, d')
                    else (\<lparr> status = 200, location = None,
                            body = Json [(''authorizeUrl'', authorizeUrl cfg st), (''state'', st)] \<rparr>, d'))"

subsection \<open>\<^verbatim>\<open>GET /callback\<close>\<close>

text \<open>
  \<^verbatim>\<open>handleOAuthCallback\<close> in three parts: the code exchange and the identity fetch
  (\<open>oauth_identity\<close>), the upsert of the connection (\<open>oauth_persist\<close>), and the handler
  itself. A part that makes the handler leave returns \<open>Inl\<close> of the response (or
  \<open>Throws\<close> for an exception the handler does not catch). The handler's result is the
  response, the store afterwards, and the calls made to GitHub.
\<close>

definition oauth_identity ::
  "config \<Rightarrow> world \<Rightarrow> string \<Rightarrow> (response io \<times> call list) + (string \<times> string list \<times> github_user)" where
  "oauth_identity cfg w code =
     (case token_fetch w of
        Throws \<Rightarrow> Inl (Throws, [ExchangeCode code])
      | Returns tokenResponse \<Rightarrow>
          if \<not> token_ok tokenResponse
          then Inl (Returns (error_redirect cfg ''Failed to exchange code for token''), [ExchangeCode code])
          else (case token_json tokenResponse of
                  Throws \<Rightarrow> Inl (Throws, [ExchangeCode code])
                | Returns tokenData \<Rightarrow>
                    (case access_token tokenData of
                       None \<Rightarrow> Inl (Returns (error_redirect cfg ''No access token received''),
                                    [ExchangeCode code])
                     | Some accessToken \<Rightarrow>
                         if accessToken = []
                         then Inl (Returns (error_redirect cfg ''No access token received''),
                                   [ExchangeCode code])
                         else (case user_fetch w of
                                 Throws \<Rightarrow> Inl (Throws, [ExchangeCode code, GetUser accessToken])
                               | Returns userResponse \<Rightarrow>
                                   if \<not> user_ok userResponse
                                   then Inl (Returns (error_redirect cfg ''Failed to fetch GitHub user''),
                                             [ExchangeCode code, GetUser accessToken])
                                   else (case user_json userResponse of
                                           Throws \<Rightarrow> Inl (Throws, [ExchangeCode code, GetUser accessToken])
                                         | Returns githubUser \<Rightarrow>
                                             Inr (accessToken, scopes_of tokenData, githubUser))))))"

definition oauth_persist ::
  "config \<Rightarrow> world \<Rightarrow> db \<Rightarrow> oauth_state \<Rightarrow> string \<Rightarrow> string list \<Rightarrow> github_user
     \<Rightarrow> response io + (uuid \<times> db)" where
  "oauth_persist cfg w d oauthState accessToken scopes githubUser =
     (case user_id githubUser of
        None \<Rightarrow> Inl Throws
      | Some githubUserId \<Rightarrow>
          (case existingConnection d (os_project_id oauthState) of
             Some existing \<Rightarrow>
               (case connection_write_error w of
                  Some message \<Rightarrow> Inl (Returns (error_redirect cfg ''Failed to update connection''))
                | None \<Rightarrow>
                    Inr (pc_id existing,
                         update_connection (pc_id existing)
                           (\<lambda>c. c \<lparr> pc_github_user_id := Some githubUserId,
                                    pc_username := Some (login githubUser),
                                    pc_access_token_encrypted := Some accessToken,
                                    pc_scopes := scopes, pc_status := active,
                                    pc_updated_at := Some (now w) \<rparr>) d))
           | None \<Rightarrow>
               (case connection_write_error w of
                  Some message \<Rightarrow> Inl (Returns (error_redirect cfg ''Failed to create connection''))
                | None \<Rightarrow>
                    Inr (generated_id w,
                         insert_connection
                           \<lparr> pc_id = generated_id w, pc_project_id = os_project_id oauthState,
                             pc_provider = ''github'', pc_owner_type = ''user'',
                             pc_owner_name = login githubUser, pc_installation_id = None,
                             pc_status = active, pc_secrets_ref = None,
                             pc_created_by = Some (os_user_id oauthState),
                             pc_github_user_id = Some githubUserId,
                             pc_username = Some (login githubUser),
                             pc_access_token_encrypted = Some accessToken,
                             pc_scopes = scopes, pc_updated_at = None,
                             pc_last_sync_at = None \<rparr> d))))"

definition handleOAuthCallback ::
  "config \<Rightarrow> world \<Rightarrow> db \<Rightarrow> request \<Rightarrow> response io \<times> db \<times> call list" where
  "handleOAuthCallback cfg w d req =
     (if GITHUB_CLIENT_ID cfg = [] \<or> GITHUB_CLIENT_SECRET cfg = [] \<or> GITHUB_REDIRECT_URI cfg = []
      then (Returns (error_redirect cfg ''GitHub OAuth not configured''), d, [])
      else if \<not> truthy (code_param req) \<or> \<not> truthy (state_param req)
      then (Returns (error_redirect cfg ''Missing code or state parameter''), d, [])
      else
        let code = the (code_param req); st = the (state_param req)
        in (case select_state w d st of
              None \<Rightarrow> (Returns (error_redirect cfg ''Invalid or expired state''), d, [])
            | Some oauthState \<Rightarrow>
                (case oauth_identity cfg w code of
                   Inl (left, calls) \<Rightarrow> (left, d, calls)
                 | Inr (accessToken, scopes, githubUser) \<Rightarrow>
                     (case oauth_persist cfg w d oauthState accessToken scopes githubUser of
                        Inl left \<Rightarrow> (left, d, [ExchangeCode code, GetUser accessToken])
                      | Inr (connectionId, d1) \<Rightarrow>
                          (Returns (redirect (frontendUrl cfg @ ''/project/'' @ os_project_id oauthState
                                              @ ''/code/select-repos?connected=true'')),
                           logAuditEvent (os_user_id oauthState) ''CONNECT'' ''provider_connection''
                             (Some connectionId) (delete_state st d1),
                           [ExchangeCode code, GetUser accessToken])))))"

subsection \<open>\<^verbatim>\<open>POST /connection/revoke\<close>\<close>

definition handleRevokeConnection ::
  "world \<Rightarrow> db \<Rightarrow> uuid \<Rightarrow> string option \<Rightarrow> response \<times> db \<times> call list" where
  "handleRevokeConnection w d userId projectId =
     (if \<not> truthy projectId then (json_error 400 ''projectId is required'', d, [])
      else if \<not> canConnectGit d userId (the projectId) then (json_error 403 ''Forbidden'', d, [])
      else (case existingConnection d (the projectId) of
              None \<Rightarrow> (json_error 404 ''Connection not found'', d, [])
            | Some connection \<Rightarrow>
                let calls = (if truthy (pc_access_token_encrypted connection)
                             then [RevokeToken (the (pc_access_token_encrypted connection))] else [])
                in (case connection_write_error w of
                      Some message \<Rightarrow> (json_error 500 ''Failed to revoke connection'', d, calls)
                    | None \<Rightarrow>
                        let d1 = update_connection (pc_id connection) (\<lambda>c. c \<lparr> pc_status := revoked \<rparr>) d;
                            d2 = d1 \<lparr> repos := map (\<lambda>r. if r_connection_id r = Some (pc_id connection)
                                                          then r \<lparr> r_selected := False \<rparr> else r)
                                                   (repos d1) \<rparr>
                        in (\<lparr> status = 200, location = None, body = Json [(''ok'', ''true'')] \<rparr>,
                            logAuditEvent userId ''CONNECT'' ''provider_connection''
                              (Some (pc_id connection)) d2,
                            calls))))"



section \<open>The function \<^verbatim>\<open>github-oauth-callback\<close>\<close>

text \<open>
  The project of a state, looked up without the expiry filter for the error redirect
  (\<^verbatim>\<open>let projectId = ""; if (state) { ... }\<close>), and the two shapes of error redirect.
\<close>

definition state_project :: "db \<Rightarrow> string option \<Rightarrow> string" where
  "state_project d st =
     (if truthy st
      then (case fst (maybeSingle (filter (\<lambda>s. os_state s = the st) (github_oauth_states d))) of
              None \<Rightarrow> []
            | Some oauthState \<Rightarrow> os_project_id oauthState)
      else [])"

definition error_location :: "config \<Rightarrow> string \<Rightarrow> string \<Rightarrow> response" where
  "error_location cfg projectId message =
     redirect (FRONTEND_URL cfg @
       (if projectId \<noteq> []
        then ''/project/'' @ projectId @ ''/code/repos?error='' @ encodeURIComponent message
        else ''/project/error?message='' @ encodeURIComponent message))"

definition project_error :: "config \<Rightarrow> string \<Rightarrow> string \<Rightarrow> response" where
  "project_error cfg projectId message =
     redirect (FRONTEND_URL cfg @ ''/project/'' @ projectId @ ''/code/repos?error=''
               @ encodeURIComponent message)"

text \<open>\<^verbatim>\<open>errorData.error_description || errorData.error || errorMsg\<close>\<close>

definition github_message :: "token_data \<Rightarrow> string \<Rightarrow> string" where
  "github_message tokenData dflt = js_or (error_description tokenData) (js_or (error_code tokenData) dflt)"

definition callback_identity ::
  "config \<Rightarrow> world \<Rightarrow> string \<Rightarrow> string \<Rightarrow> (response io \<times> call list) + (string \<times> string list \<times> github_user)" where
  "callback_identity cfg w projectId code =
     (case token_fetch w of
        Throws \<Rightarrow> Inl (Throws, [ExchangeCode code])
      | Returns tokenResponse \<Rightarrow>
          if \<not> token_ok tokenResponse
          then Inl (Returns (project_error cfg projectId
                      (case token_json tokenResponse of
                         Throws \<Rightarrow> ''Failed to exchange code for token''
                       | Returns errorData \<Rightarrow> github_message errorData ''Failed to exchange code for token'')),
                    [ExchangeCode code])
          else (case token_json tokenResponse of
                  Throws \<Rightarrow> Inl (Throws, [ExchangeCode code])
                | Returns tokenData \<Rightarrow>
                    if \<not> truthy (access_token tokenData)
                    then Inl (Returns (project_error cfg projectId
                                (github_message tokenData ''No access token received'')),
                              [ExchangeCode code])
                    else
                      let accessToken = the (access_token tokenData)
                      in (case user_fetch w of
                            Throws \<Rightarrow> Inl (Throws, [ExchangeCode code, GetUser accessToken])
                          | Returns userResponse \<Rightarrow>
                              if \<not> user_ok userResponse
                              then Inl (Returns (project_error cfg projectId ''Failed to fetch GitHub user''),
                                        [ExchangeCode code, GetUser accessToken])
                              else (case user_json userResponse of
                                      Throws \<Rightarrow> Inl (Throws, [ExchangeCode code, GetUser accessToken])
                                    | Returns githubUser \<Rightarrow>
                                        Inr (accessToken, scopes_of tokenData, githubUser)))))"

definition callback_persist ::
  "config \<Rightarrow> world \<Rightarrow> db \<Rightarrow> oauth_state \<Rightarrow> string \<Rightarrow> string list \<Rightarrow> github_user
     \<Rightarrow> response io + (uuid \<times> db)" where
  "callback_persist cfg w d oauthState accessToken scopes githubUser =
     (let projectId = os_project_id oauthState; userId = os_user_id oauthState;
          secretsRef = ''github_oauth_'' @ projectId @ ''_'' @ userId
      in case user_id githubUser of
        None \<Rightarrow> Inl Throws
      | Some githubUserId \<Rightarrow>
          (case existingConnection d projectId of
             Some existing \<Rightarrow>
               (case connection_write_error w of
                  Some message \<Rightarrow>
                    Inl (Returns (project_error cfg projectId (''Failed to update connection: '' @ message)))
                | None \<Rightarrow>
                    Inr (pc_id existing,
                         update_connection (pc_id existing)
                           (\<lambda>c. c \<lparr> pc_github_user_id := Some githubUserId,
                                    pc_username := Some (login githubUser),
                                    pc_access_token_encrypted := Some accessToken,
                                    pc_scopes := scopes, pc_status := active,
                                    pc_updated_at := Some (now w),
                                    pc_secrets_ref := Some secretsRef \<rparr>) d))
           | None \<Rightarrow>
               (case connection_write_error w of
                  Some message \<Rightarrow>
                    Inl (Returns (project_error cfg projectId (''Failed to create connection: '' @ message)))
                | None \<Rightarrow>
                    Inr (generated_id w,
                         insert_connection
                           \<lparr> pc_id = generated_id w, pc_project_id = projectId,
                             pc_provider = ''github'', pc_owner_type = ''user'',
                             pc_owner_name = login githubUser, pc_installation_id = None,
                             pc_status = active, pc_secrets_ref = Some secretsRef,
                             pc_created_by = Some userId,
                             pc_github_user_id = Some githubUserId,
                             pc_username = Some (login githubUser),
                             pc_access_token_encrypted = Some accessToken,
                             pc_scopes = scopes, pc_updated_at = None,
                             pc_last_sync_at = None \<rparr> d))))"

text \<open>The body of the \<^verbatim>\<open>try\<close> block of the server function.\<close>

definition callback_try ::
  "config \<Rightarrow> world \<Rightarrow> db \<Rightarrow> request \<Rightarrow> response io \<times> db \<times> call list" where
  "callback_try cfg w d req =
     (if GITHUB_CLIENT_ID cfg = [] \<or> GITHUB_CLIENT_SECRET cfg = [] \<or> GITHUB_REDIRECT_URI cfg = []
      then (Returns (error_location cfg (state_project d (state_param req)) ''GitHub OAuth not configured''),
            d, [])
      else if \<not> truthy (code_param req) \<or> \<not> truthy (state_param req)
      then (Returns (error_location cfg (state_project d (state_param req))
                       ''Missing code or state parameter''), d, [])
      else
        let code = the (code_param req); st = the (state_param req)
        in (case select_state w d st of
              None \<Rightarrow> (Returns (error_location cfg (state_project d (state_param req))
                                 ''Invalid or expired state''), d, [])
            | Some oauthState \<Rightarrow>
                (case callback_identity cfg w (os_project_id oauthState) code of
                   Inl (left, calls) \<Rightarrow> (left, d, calls)
                 | Inr (accessToken, scopes, githubUser) \<Rightarrow>
                     (case callback_persist cfg w d oauthState accessToken scopes githubUser of
                        Inl left \<Rightarrow> (left, d, [ExchangeCode code, GetUser accessToken])
                      | Inr (connectionId, d1) \<Rightarrow>
                          (Returns (redirect (FRONTEND_URL cfg @ ''/project/'' @ os_project_id oauthState
                                              @ ''/code/repos?connected=true'')),
                           logAuditEvent (os_user_id oauthState) ''CONNECT'' ''provider_connection''
                             (Some connectionId) (delete_state st d1),
                           [ExchangeCode code, GetUser accessToken])))))"

text \<open>The server function: \<^verbatim>\<open>OPTIONS\<close>, any other method but \<^verbatim>\<open>GET\<close>, and the \<^verbatim>\<open>try\<close> block
  with its \<^verbatim>\<open>catch\<close>.\<close>

definition oauth_callback_serve ::
  "config \<Rightarrow> world \<Rightarrow> db \<Rightarrow> request \<Rightarrow> response \<times> db \<times> call list" where
  "oauth_callback_serve cfg w d req =
     (if req_method req = ''OPTIONS'' then (\<lparr> status = 200, location = None, body = NoBody \<rparr>, d, [])
      else if req_method req \<noteq> ''GET'' then (json_error 405 ''Method not allowed'', d, [])
      else (case callback_try cfg w d req of
              (Returns res, d', calls) \<Rightarrow> (res, d', calls)
            | (Throws, d', calls) \<Rightarrow>
                (error_location cfg (state_project d' (state_param req)) ''Internal server error'',
                 d', calls)))"


section \<open>The function \<^verbatim>\<open>git-connect\<close> (GitHub App installations)\<close>

text \<open>The account of an installation as \<^verbatim>\<open>octokit.apps.getInstallation\<close> returns it, and the
  JSON body of \<^verbatim>\<open>POST /callback\<close>.\<close>

record installation =
  account_type :: "string option"
  account_login :: "string option"

record callback_body =
  cb_projectId :: "string option"
  cb_installationId :: "string option"
  cb_provider :: "string option"
  cb_ownerType :: "string option"
  cb_ownerName :: "string option"

text \<open>
  \<^verbatim>\<open>syncRepos\<close>, as far as the connection goes: a sync that fails marks the connection
  \<^verbatim>\<open>error\<close>, one that succeeds stamps \<^verbatim>\<open>last_sync_at\<close> and logs the event. The catalogue
  of repositories and branches it writes is left out; it never adds or removes a
  connection.
\<close>

definition syncRepos :: "world \<Rightarrow> uuid \<Rightarrow> uuid \<Rightarrow> db \<Rightarrow> db" where
  "syncRepos w connectionId userId d =
     (let failed = update_connection connectionId (\<lambda>c. c \<lparr> pc_status := error \<rparr>) d
      in case fst (maybeSingle (filter (\<lambda>c. pc_id c = connectionId) (provider_connections d))) of
           None \<Rightarrow> failed
         | Some connection \<Rightarrow>
             if \<not> truthy (pc_installation_id connection) then failed
             else (case sync_listing w of
                     Throws \<Rightarrow> failed
                   | Returns n \<Rightarrow>
                       logAuditEvent userId ''SYNC'' ''provider_connection'' (Some connectionId)
                         (update_connection connectionId
                            (\<lambda>c. c \<lparr> pc_last_sync_at := Some (now w) \<rparr>) d)))"

definition handleCallback ::
  "world \<Rightarrow> installation io \<Rightarrow> db \<Rightarrow> uuid \<Rightarrow> callback_body \<Rightarrow> response \<times> db \<times> call list" where
  "handleCallback w installation_fetch d userId b =
     (if \<not> truthy (cb_projectId b) \<or> \<not> truthy (cb_installationId b)
      then (json_error 400 ''projectId and installationId are required'', d, [])
      else
        let projectId = the (cb_projectId b); installationId = the (cb_installationId b);
            provider = (case cb_provider b of None \<Rightarrow> ''github'' | Some p \<Rightarrow> p)
        in if \<not> canConnectGit d userId projectId then (json_error 403 ''Forbidden'', d, [])
           else (case installation_fetch of
                   Throws \<Rightarrow> (json_error 500 ''Failed to process callback'', d, [GetInstallation installationId])
                 | Returns inst \<Rightarrow>
                     (case connection_write_error w of
                        Some message \<Rightarrow>
                          (json_error 500 ''Failed to create connection'', d, [GetInstallation installationId])
                      | None \<Rightarrow>
                          let connection =
                                \<lparr> pc_id = generated_id w, pc_project_id = projectId,
                                  pc_provider = provider,
                                  pc_owner_type = js_or (cb_ownerType b)
                                    (if account_type inst = Some ''Organization'' then ''org'' else ''user''),
                                  pc_owner_name = js_or (cb_ownerName b) (js_or (account_login inst) []),
                                  pc_installation_id = Some installationId,
                                  pc_status = active,
                                  pc_secrets_ref = Some (''github_installation_'' @ installationId),
                                  pc_created_by = Some userId,
                                  pc_github_user_id = None, pc_username = None,
                                  pc_access_token_encrypted = None, pc_scopes = [],
                                  pc_updated_at = None, pc_last_sync_at = None \<rparr>;
                              d1 = logAuditEvent userId ''CONNECT'' ''provider_connection''
                                     (Some (generated_id w)) (insert_connection connection d)
                          in (\<lparr> status = 200, location = None,
                                body = Json [(''connection'', generated_id w)] \<rparr>,
                              syncRepos w (generated_id w) userId d1,
                              [GetInstallation installationId]))))"

text \<open>\<^verbatim>\<open>DELETE /connections/:id\<close>\<close>

definition handleDeleteConnection ::
  "world \<Rightarrow> db \<Rightarrow> uuid \<Rightarrow> uuid \<Rightarrow> response \<times> db" where
  "handleDeleteConnection w d connectionId userId =
     (case fst (maybeSingle (filter (\<lambda>c. pc_id c = connectionId) (provider_connections d))) of
        None \<Rightarrow> (json_error 404 ''Connection not found'', d)
      | Some connection \<Rightarrow>
          if \<not> canConnectGit d userId (pc_project_id connection) then (json_error 403 ''Forbidden'', d)
          else (case connection_write_error w of
                  Some message \<Rightarrow> (json_error 500 ''Failed to revoke connection'', d)
                | None \<Rightarrow>
                    (\<lparr> status = 200, location = None, body = Json [(''success'', ''true'')] \<rparr>,
                     logAuditEvent userId ''CONNECT'' ''provider_connection'' (Some connectionId)
                       (update_connection connectionId (\<lambda>c. c \<lparr> pc_status := revoked \<rparr>) d))))"


section \<open>Outcomes of the outside calls\<close>

text \<open>
  The code exchange succeeded: the token endpoint answered OK with JSON carrying a
  non-empty access token. The identity fetch succeeded: \<^verbatim>\<open>/user\<close> answered OK with an
  account that has an id. The connection was persisted: the database took the write.
\<close>

definition exchange_ok :: "world \<Rightarrow> bool" where
  "exchange_ok w =
     (case token_fetch w of
        Throws \<Rightarrow> False
      | Returns tokenResponse \<Rightarrow>
          token_ok tokenResponse \<and>
          (case token_json tokenResponse of
             Throws \<Rightarrow> False
           | Returns tokenData \<Rightarrow> truthy (access_token tokenData)))"

definition identity_ok :: "world \<Rightarrow> bool" where
  "identity_ok w =
     (case user_fetch w of
        Throws \<Rightarrow> False
      | Returns userResponse \<Rightarrow>
          user_ok userResponse \<and>
          (case user_json userResponse of
             Throws \<Rightarrow> False
           | Returns githubUser \<Rightarrow> user_id githubUser \<noteq> None))"

definition persist_ok :: "world \<Rightarrow> bool" where
  "persist_ok w = (connection_write_error w = None)"

text \<open>The deployment is configured, and the request carries a code and a state.\<close>

definition configured :: "config \<Rightarrow> bool" where
  "configured cfg =
     (GITHUB_CLIENT_ID cfg \<noteq> [] \<and> GITHUB_CLIENT_SECRET cfg \<noteq> [] \<and> GITHUB_REDIRECT_URI cfg \<noteq> [])"

definition well_formed :: "request \<Rightarrow> bool" where
  "well_formed req = (truthy (code_param req) \<and> truthy (state_param req))"

text \<open>The message of the rejection a stale state meets in \<^verbatim>\<open>handleOAuthCallback\<close>: the
  checks of configuration and parameters come before the state lookup.\<close>

definition rejection_message :: "config \<Rightarrow> request \<Rightarrow> string" where
  "rejection_message cfg req =
     (if \<not> configured cfg then ''GitHub OAuth not configured''
      else if \<not> well_formed req then ''Missing code or state parameter''
      else ''Invalid or expired state'')"

section \<open>Sample data for the handshake\<close>

definition sample_config :: config where
  "sample_config = \<lparr> GITHUB_CLIENT_ID = ''Iv1.abc'', GITHUB_CLIENT_SECRET = ''s3cret'',
     GITHUB_REDIRECT_URI = ''https://app.example.com/callback'',
     FRONTEND_URL = ''https://app.example.com'', SUPABASE_URL = ''https://x.supabase.co'' \<rparr>"

definition octocat_token :: token_response where
  "octocat_token = \<lparr> token_ok = True,
     token_json = Returns \<lparr> access_token = Some ''gho_token'', scope = Some ''repo,read:org'',
                            error_code = None, error_description = None \<rparr> \<rparr>"

definition octocat_user :: user_response where
  "octocat_user = \<lparr> user_ok = True,
     user_json = Returns \<lparr> user_id = Some ''583231'', login = ''octocat'' \<rparr> \<rparr>"

definition sample_world :: world where
  "sample_world = \<lparr> now = 1000000, random_uuid = ''state-1'', generated_id = ''conn-1'',
     state_select_error = False, token_fetch = Returns octocat_token,
     user_fetch = Returns octocat_user, connection_write_error = None,
     sync_listing = Returns 0 \<rparr>"

text \<open>A world where GitHub refuses the code, and one five minutes and more later.\<close>

definition refusing_world :: world where
  "refusing_world = sample_world \<lparr> token_fetch :=
     Returns \<lparr> token_ok = False, token_json = Throws \<rparr> \<rparr>"

definition later_world :: world where
  "later_world = sample_world \<lparr> now := 1300000 \<rparr>"

text \<open>\<open>alice\<close> administers project \<open>p1\<close>; \<open>issued_db\<close> is the store after she started the
  handshake at time 1000000 (state \<open>state-1\<close>, expiring at 1300000).\<close>

definition admin_db :: db where
  "admin_db = empty_db \<lparr> project_members :=
     [\<lparr> pm_user_id = ''alice'', pm_project_id = ''p1'', pm_role = admin \<rparr>] \<rparr>"

definition issued_db :: db where
  "issued_db = admin_db \<lparr> github_oauth_states :=
     [\<lparr> os_state = ''state-1'', os_project_id = ''p1'', os_user_id = ''alice'',
        os_expires_at = 1300000 \<rparr>] \<rparr>"

definition callback_request :: request where
  "callback_request = \<lparr> req_method = ''GET'', code_param = Some ''abc123'', state_param = Some ''state-1'' \<rparr>"

text \<open>The callback GitHub sends when the user denies access: a state and no code.\<close>

definition denied_request :: request where
  "denied_request = \<lparr> req_method = ''GET'', code_param = None, state_param = Some ''state-0'' \<rparr>"


text \<open>A connection of project \<open>p1\<close> with one selected repository.\<close>

definition connection1 :: provider_connection where
  "connection1 = \<lparr> pc_id = ''conn-0'', pc_project_id = ''p1'', pc_provider = ''github'',
     pc_owner_type = ''user'', pc_owner_name = ''octocat'', pc_installation_id = None,
     pc_status = active, pc_secrets_ref = None, pc_created_by = Some ''alice'',
     pc_github_user_id = Some ''583231'', pc_username = Some ''octocat'',
     pc_access_token_encrypted = Some ''gho_old'', pc_scopes = [''repo''],
     pc_updated_at = None, pc_last_sync_at = None \<rparr>"

definition connected_db :: db where
  "connected_db = admin_db \<lparr> provider_connections := [connection1],
     repos := [\<lparr> r_id = ''repo1'', r_connection_id = Some ''conn-0'', r_selected = True \<rparr>] \<rparr>"

definition install_body :: callback_body where
  "install_body = \<lparr> cb_projectId = Some ''p1'', cb_installationId = Some ''4242'',
     cb_provider = None, cb_ownerType = None, cb_ownerName = None \<rparr>"

definition octo_installation :: installation where
  "octo_installation = \<lparr> account_type = Some ''Organization'', account_login = Some ''octo-org'' \<rparr>"


section \<open>Properties of the retry helper\<close>

lemma backoff_trace_Suc:
  "i \<le> k \<Longrightarrow> backoff_trace d i (Suc k) = backoff_trace d i k @ [Invoke k, Sleep (d * (int k + 1))]"
  by (simp add: backoff_trace_def)

lemma retry_loop_rate_limited:
  "i \<le> k \<Longrightarrow> k \<le> n \<Longrightarrow> (\<forall>j. i \<le> j \<and> j < k \<longrightarrow> rate_limited (fn j)) \<Longrightarrow>
   retry_loop fn n d i le tr =
   retry_loop fn n d k (if i < k then err_of (fn (k - 1)) else le) (tr @ backoff_trace d i k)"
proof (induction k)
  case 0
  then show ?case by (simp add: backoff_trace_def)
next
  case (Suc k)
  show ?case
  proof (cases "i = Suc k")
    case True
    then show ?thesis by (simp add: backoff_trace_def)
  next
    case False
    with Suc.prems have ik: "i \<le> k" and kn: "k < n" by auto
    from Suc.prems have rl: "rate_limited (fn k)" using ik by auto
    from Suc.prems have "\<forall>j. i \<le> j \<and> j < k \<longrightarrow> rate_limited (fn j)" by auto
    with Suc.IH ik kn have step: "retry_loop fn n d i le tr =
       retry_loop fn n d k (if i < k then err_of (fn (k - 1)) else le) (tr @ backoff_trace d i k)"
      by simp
    from rl obtain e where e: "fn k = Rejects e" "status_of e = Some 403 \<or> status_of e = Some 429"
      by (auto simp: rate_limited_def split: attempt.splits)
    show ?thesis
      apply (subst step)
      apply (subst retry_loop.simps)
      using e kn ik by (auto simp: backoff_trace_Suc)
  qed
qed

text \<open>
  Claim C6. With the default \<^verbatim>\<open>maxRetries = 3\<close>: when every call is rejected with status
  403 or 429 the function is called exactly three times, each call followed by a wait of
  \<open>delay * attemptNumber\<close>, and the last error is thrown; a rejection with any other
  status (or none) at call \<open>k\<close> is thrown at once, with no further call; a call that
  resolves returns its value. The trace lists every call and every wait in order.
\<close>

theorem withRetry_spec:
  "((\<forall>i<3. rate_limited (fn i)) \<longrightarrow>
      (\<exists>e. fn 2 = Rejects e \<and>
           withRetry fn 3 delay =
             (Inl (as_Error e),
              [Invoke 0, Sleep (delay * 1), Invoke 1, Sleep (delay * 2), Invoke 2, Sleep (delay * 3)])))
   \<and> (k < 3 \<and> (\<forall>i<k. rate_limited (fn i)) \<and> fn k = Rejects err
        \<and> status_of err \<noteq> Some 403 \<and> status_of err \<noteq> Some 429 \<longrightarrow>
        withRetry fn 3 delay = (Inl (as_Error err), backoff_trace delay 0 k @ [Invoke k]))
   \<and> (k < 3 \<and> (\<forall>i<k. rate_limited (fn i)) \<and> fn k = Resolves v \<longrightarrow>
        withRetry fn 3 delay = (Inr v, backoff_trace delay 0 k @ [Invoke k]))"
proof (intro conjI impI)
  assume all: "\<forall>i<3. rate_limited (fn i)"
  then have "rate_limited (fn 2)" by simp
  then obtain e where e: "fn 2 = Rejects e"
    by (auto simp: rate_limited_def split: attempt.splits)
  have "withRetry fn 3 delay = retry_loop fn 3 delay 3 (err_of (fn 2)) ([] @ backoff_trace delay 0 3)"
    unfolding withRetry_def
    using retry_loop_rate_limited [of 0 3 3 fn delay None "[]"] all by simp
  also have "\<dots> = (Inl (as_Error e), backoff_trace delay 0 3)"
    using e by simp
  finally have "withRetry fn 3 delay = (Inl (as_Error e), backoff_trace delay 0 3)" .
  moreover have "backoff_trace delay 0 3 =
      [Invoke 0, Sleep (delay * 1), Invoke 1, Sleep (delay * 2), Invoke 2, Sleep (delay * 3)]"
    by (simp add: backoff_trace_def upt_rec)
  ultimately show "\<exists>e. fn 2 = Rejects e \<and>
           withRetry fn 3 delay =
             (Inl (as_Error e),
              [Invoke 0, Sleep (delay * 1), Invoke 1, Sleep (delay * 2), Invoke 2, Sleep (delay * 3)])"
    using e by simp
next
  assume a: "k < 3 \<and> (\<forall>i<k. rate_limited (fn i)) \<and> fn k = Rejects err
        \<and> status_of err \<noteq> Some 403 \<and> status_of err \<noteq> Some 429"
  then have "withRetry fn 3 delay =
      retry_loop fn 3 delay k (if 0 < k then err_of (fn (k - 1)) else None) ([] @ backoff_trace delay 0 k)"
    unfolding withRetry_def
    using retry_loop_rate_limited [of 0 k 3 fn delay None "[]"] by simp
  also have "\<dots> = (Inl (as_Error err), backoff_trace delay 0 k @ [Invoke k])"
    using a by (subst retry_loop.simps) simp
  finally show "withRetry fn 3 delay = (Inl (as_Error err), backoff_trace delay 0 k @ [Invoke k])" .
next
  assume a: "k < 3 \<and> (\<forall>i<k. rate_limited (fn i)) \<and> fn k = Resolves v"
  then have "withRetry fn 3 delay =
      retry_loop fn 3 delay k (if 0 < k then err_of (fn (k - 1)) else None) ([] @ backoff_trace delay 0 k)"
    unfolding withRetry_def
    using retry_loop_rate_limited [of 0 k 3 fn delay None "[]"] by simp
  also have "\<dots> = (Inr v, backoff_trace delay 0 k @ [Invoke k])"
    using a by (subst retry_loop.simps) simp
  finally show "withRetry fn 3 delay = (Inr v, backoff_trace delay 0 k @ [Invoke k])" .
qed

text \<open>The three cases of C6 on sample functions.\<close>

theorem withRetry_spec_witness:
  "rate_limited (always_429 0) \<and> rate_limited (always_429 1) \<and> rate_limited (always_429 2) \<and>
   withRetry always_429 3 1000 =
     (Inl (ThrownError (Some 429) ''rate limit exceeded''),
      [Invoke 0, Sleep 1000, Invoke 1, Sleep 2000, Invoke 2, Sleep 3000]) \<and>
   status_of (ThrownError (Some 500) ''server error'') = Some 500 \<and>
   withRetry fails_500 3 1000 = (Inl (ThrownError (Some 500) ''server error''), [Invoke 0]) \<and>
   rate_limited (second_ok 0) \<and> second_ok 1 = Resolves 7 \<and>
   withRetry second_ok 3 1000 = (Inr 7, [Invoke 0, Sleep 1000, Invoke 1])"
proof -
  have r: "rate_limited (always_429 0)" "rate_limited (always_429 1)" "rate_limited (always_429 2)"
    by (simp_all add: rate_limited_def always_429_def)
  have h1: "\<forall>i<3. rate_limited (always_429 i)"
    by (simp add: rate_limited_def always_429_def)
  have r2: "rate_limited (second_ok 0)" "second_ok 1 = Resolves 7"
    by (simp_all add: rate_limited_def second_ok_def)
  then have h2: "\<forall>i<1. rate_limited (second_ok i)"
    by simp
  from withRetry_spec [of always_429 1000 0 "ThrownError None []" 0] h1
  have c1: "withRetry always_429 3 1000 =
     (Inl (ThrownError (Some 429) ''rate limit exceeded''),
      [Invoke 0, Sleep 1000, Invoke 1, Sleep 2000, Invoke 2, Sleep 3000])"
    by (auto simp: always_429_def)
  from withRetry_spec [of fails_500 1000 0 "ThrownError (Some 500) ''server error''" 0]
  have c2: "withRetry fails_500 3 1000 = (Inl (ThrownError (Some 500) ''server error''), [Invoke 0])"
    by (simp add: fails_500_def backoff_trace_def)
  from withRetry_spec [of second_ok 1000 1 "ThrownError None []" 7] h2 r2
  have c3: "withRetry second_ok 3 1000 = (Inr 7, [Invoke 0, Sleep 1000, Invoke 1])"
    by (simp add: backoff_trace_def)
  from r r2 c1 c2 c3 show ?thesis by simp
qed

section \<open>The matcher on the task-key pattern\<close>

declare matchAll.simps [simp del]
declare matches.simps(4) [simp del]

lemma class_chars_alnum:
  "class_chars [(CHR ''A'', CHR ''Z''), (CHR ''0'', CHR ''9'')] = ''ABCDEFGHIJKLMNOPQRSTUVWXYZ0123456789''"
  by code_simp

lemma canonicalize_class:
  "m \<in> set ''ABCDEFGHIJKLMNOPQRSTUVWXYZ0123456789'' \<Longrightarrow> canonicalize m = m"
  by (auto simp: canonicalize_def)

lemma class_matches_alnum:
  "list_ex (\<lambda>m. canonicalize m = canonicalize c)
     (class_chars [(CHR ''A'', CHR ''Z''), (CHR ''0'', CHR ''9'')]) = alnum c"
proof -
  let ?cs = "''ABCDEFGHIJKLMNOPQRSTUVWXYZ0123456789''"
  have "(\<exists>m \<in> set ?cs. canonicalize m = canonicalize c) = (canonicalize c \<in> set ?cs)"
    using canonicalize_class by metis
  then show ?thesis
    unfolding alnum_def class_chars_alnum list_ex_iff .
qed

lemma not_alnum_hyphen: "\<not> alnum CHR ''-''"
  unfolding alnum_def class_chars_alnum by (simp add: canonicalize_def)

lemma canonicalize_hyphen: "canonicalize c = CHR ''-'' \<longleftrightarrow> c = CHR ''-''"
proof
  assume h: "canonicalize c = CHR ''-''"
  show "c = CHR ''-''"
  proof (cases "(97::nat) \<le> of_char c \<and> of_char c \<le> (122::nat)")
    case True
    with h have "char_of (of_char c - (32::nat)) = CHR ''-''" by (simp add: canonicalize_def)
    then have "of_char (char_of (of_char c - (32::nat))) = (of_char CHR ''-'' :: nat)" by simp
    then have m: "(of_char c - (32::nat)) mod 256 = 45" by (simp add: of_char_of)
    define n :: nat where "n = of_char c"
    from True have n: "97 \<le> n" "n \<le> 122" by (simp_all add: n_def)
    then have "n - 32 < 256" by linarith
    then have "(n - 32) mod 256 = n - 32" by simp
    with m have "n - 32 = 45" by (simp add: n_def)
    with n have False by linarith
    then show ?thesis ..
  next
    case False
    with h show ?thesis by (simp add: canonicalize_def)
  qed
next
  assume "c = CHR ''-''"
  then show "canonicalize c = CHR ''-''" by (simp add: canonicalize_def)
qed

lemma matches_alnum_class:
  "matches alnum_class s = (case s of [] \<Rightarrow> [] | c # cs \<Rightarrow> if alnum c then [(None, cs)] else [])"
  by (simp add: alnum_class_def class_matches_alnum split: list.splits)

lemma matches_Star_first:
  assumes "matches a s = (None, s1) # alts" and "length s1 < length s"
    and "matches (Star a) s1 = (None, s2) # alts'"
  shows "\<exists>alts''. matches (Star a) s = (None, s2) # alts''"
  by (subst matches.simps(4)) (simp add: assms)

lemma matches_Star_none: "matches a s = [] \<Longrightarrow> matches (Star a) s = [(None, s)]"
  by (subst matches.simps(4)) simp

lemma matches_Star_alnum:
  "\<exists>alts. matches (Star alnum_class) s = (None, dropWhile alnum s) # alts"
proof (induction s)
  case Nil
  show ?case by (subst matches.simps(4)) (simp add: matches_alnum_class)
next
  case (Cons c cs)
  then obtain alts where ih: "matches (Star alnum_class) cs = (None, dropWhile alnum cs) # alts"
    by blast
  show ?case
    by (subst matches.simps(4)) (simp add: matches_alnum_class ih)
qed

lemma matches_Plus_alnum:
  "alnum c \<Longrightarrow> \<exists>alts. matches (Plus alnum_class) (c # cs) = (None, dropWhile alnum cs) # alts"
  using matches_Star_alnum [of cs] by (auto simp: Plus_def matches_alnum_class)

lemma matches_Plus_alnum_none:
  "(case s of [] \<Rightarrow> True | c # cs \<Rightarrow> \<not> alnum c) \<Longrightarrow> matches (Plus alnum_class) s = []"
  by (auto simp: Plus_def matches_alnum_class split: list.splits)

lemma matches_group:
  "alnum c \<Longrightarrow> \<exists>alts. matches hyphen_group (CHR ''-'' # c # cs) = (None, dropWhile alnum cs) # alts"
  using matches_Plus_alnum [of c cs] by (auto simp: hyphen_group_def)

lemma matches_group_none:
  "\<not> (\<exists>c cs. s = CHR ''-'' # c # cs \<and> alnum c) \<Longrightarrow> matches hyphen_group s = []"
proof (cases s)
  case Nil
  then show ?thesis by (simp add: hyphen_group_def)
next
  case (Cons a as)
  assume n: "\<not> (\<exists>c cs. s = CHR ''-'' # c # cs \<and> alnum c)"
  show ?thesis
  proof (cases "a = CHR ''-''")
    case True
    with n Cons have "case as of [] \<Rightarrow> True | c # cs \<Rightarrow> \<not> alnum c" by (auto split: list.splits)
    then have "matches (Plus alnum_class) as = []" by (rule matches_Plus_alnum_none)
    with Cons True show ?thesis by (simp add: hyphen_group_def canonicalize_hyphen)
  next
    case False
    have h: "canonicalize CHR ''-'' = CHR ''-''" by (simp add: canonicalize_def)
    have "canonicalize a \<noteq> canonicalize CHR ''-''"
      using False by (simp only: h canonicalize_hyphen) simp
    with Cons show ?thesis by (simp add: hyphen_group_def)
  qed
qed

lemma key_tail_takeWhile: "key_tail s = takeWhile alnum s @ key_tail (dropWhile alnum s)"
  by (induction s) auto

lemma key_tail_prefix: "take (length (key_tail s)) s = key_tail s"
  by (induction s) auto

lemma length_key_tail: "length (key_tail s) \<le> length s"
  by (induction s) auto

lemma matches_Star_group:
  "(case s of [] \<Rightarrow> True | c # cs \<Rightarrow> \<not> alnum c) \<Longrightarrow>
   \<exists>alts. matches (Star hyphen_group) s = (None, drop (length (key_tail s)) s) # alts"
proof (induction "length s" arbitrary: s rule: less_induct)
  case less
  show ?case
  proof (cases "\<exists>c cs. s = CHR ''-'' # c # cs \<and> alnum c")
    case True
    then obtain c cs where s: "s = CHR ''-'' # c # cs" and c: "alnum c" by blast
    let ?s1 = "dropWhile alnum cs"
    from matches_group [OF c, of cs] obtain alts where
      g: "matches hyphen_group s = (None, ?s1) # alts" using s by auto
    have len: "length ?s1 < length s" using s length_dropWhile_le [of alnum cs] by simp
    have "case ?s1 of [] \<Rightarrow> True | d # ds \<Rightarrow> \<not> alnum d"
      by (metis (mono_tags, lifting) hd_dropWhile list.case_eq_if list.sel(1))
    with less.hyps [OF len] obtain alts' where
      ih: "matches (Star hyphen_group) ?s1 = (None, drop (length (key_tail ?s1)) ?s1) # alts'"
      by blast
    have "key_tail s = CHR ''-'' # key_tail (c # cs)"
      using s c by (simp add: not_alnum_hyphen)
    also have "key_tail (c # cs) = c # key_tail cs"
      using c by simp
    also have "key_tail cs = takeWhile alnum cs @ key_tail ?s1"
      by (rule key_tail_takeWhile)
    finally have kt: "key_tail s = CHR ''-'' # c # takeWhile alnum cs @ key_tail ?s1" .
    have dr: "drop (length (key_tail s)) s = drop (length (key_tail ?s1)) ?s1"
      unfolding kt using s by (simp add: dropWhile_eq_drop add.commute)
    from matches_Star_first [OF g len ih] show ?thesis
      unfolding dr .
  next
    case False
    then have g: "matches hyphen_group s = []" by (rule matches_group_none)
    have "key_tail s = []"
      using less.prems False by (cases s) (auto split: list.splits)
    then show ?thesis
      using matches_Star_none [OF g] by simp
  qed
qed

lemma tsk_prefix_take4:
  "tsk_prefix (take 4 s) \<longleftrightarrow>
   (\<exists>t s' k h rest. s = t # s' # k # h # rest \<and> canonicalize t = CHR ''T'' \<and> canonicalize s' = CHR ''S''
      \<and> canonicalize k = CHR ''K'' \<and> h = CHR ''-'')"
proof
  assume a: "tsk_prefix (take 4 s)"
  then have "length (map canonicalize (take 4 s)) = length ''TSK-''"
    unfolding tsk_prefix_def by simp
  then have "length (take 4 s) = 4" by simp
  then obtain t s' k h rest where s: "s = t # s' # k # h # rest"
    by (cases s; cases "tl s"; cases "tl (tl s)"; cases "tl (tl (tl s))") auto
  with a show "\<exists>t s' k h rest. s = t # s' # k # h # rest \<and> canonicalize t = CHR ''T'' \<and> canonicalize s' = CHR ''S''
      \<and> canonicalize k = CHR ''K'' \<and> h = CHR ''-''"
    by (simp add: tsk_prefix_def canonicalize_hyphen)
next
  assume "\<exists>t s' k h rest. s = t # s' # k # h # rest \<and> canonicalize t = CHR ''T'' \<and> canonicalize s' = CHR ''S''
      \<and> canonicalize k = CHR ''K'' \<and> h = CHR ''-''"
  then show "tsk_prefix (take 4 s)"
    by (auto simp: tsk_prefix_def canonicalize_hyphen)
qed

lemma canonicalize_TSK:
  "canonicalize CHR ''T'' = CHR ''T''" "canonicalize CHR ''S'' = CHR ''S''"
  "canonicalize CHR ''K'' = CHR ''K''" "canonicalize CHR ''-'' = CHR ''-''"
  by (simp_all add: canonicalize_def)

lemma matches_Seq_Lit:
  "matches (Seq (Lit a) r) s =
     (case s of [] \<Rightarrow> [] | c # cs \<Rightarrow> if canonicalize c = canonicalize a then matches r cs else [])"
proof -
  have id: "\<And>xs :: (string option \<times> string) list.
      map (\<lambda>(c2, s2). (if c2 = None then None else c2, s2)) xs = xs"
    by (induct_tac xs) auto
  show ?thesis by (cases s) (simp_all add: id)
qed

lemma matches_body_first:
  assumes c: "alnum c"
  shows "\<exists>alts. matches (Seq (Plus alnum_class) (Star hyphen_group)) (c # cs) =
           (None, drop (length (key_tail (c # cs))) (c # cs)) # alts"
proof -
  let ?s1 = "dropWhile alnum cs"
  from matches_Plus_alnum [OF c, of cs] obtain alts where
    p: "matches (Plus alnum_class) (c # cs) = (None, ?s1) # alts" by blast
  have "case ?s1 of [] \<Rightarrow> True | d # ds \<Rightarrow> \<not> alnum d"
    by (metis (mono_tags, lifting) hd_dropWhile list.case_eq_if)
  from matches_Star_group [OF this] obtain alts' where
    g: "matches (Star hyphen_group) ?s1 = (None, drop (length (key_tail ?s1)) ?s1) # alts'" by blast
  have "key_tail (c # cs) = c # key_tail cs" using c by simp
  also have "key_tail cs = takeWhile alnum cs @ key_tail ?s1" by (rule key_tail_takeWhile)
  finally have kt: "key_tail (c # cs) = c # takeWhile alnum cs @ key_tail ?s1" .
  have dr: "drop (length (key_tail (c # cs))) (c # cs) = drop (length (key_tail ?s1)) ?s1"
    unfolding kt by (simp add: dropWhile_eq_drop add.commute)
  show ?thesis
    unfolding dr by (simp add: p g)
qed

lemma matches_body_none:
  "(case s of [] \<Rightarrow> True | c # cs \<Rightarrow> \<not> alnum c) \<Longrightarrow>
   matches (Seq (Plus alnum_class) (Star hyphen_group)) s = []"
  by (simp add: matches_Plus_alnum_none)

lemma matches_tsk_Some:
  assumes "match_here s = Some r"
  shows "\<exists>alts. matches tsk_regex s = (Some r, drop (4 + length r) s) # alts"
proof -
  from assms have pre: "tsk_prefix (take 4 s)"
    and al: "case drop 4 s of [] \<Rightarrow> False | c # cs \<Rightarrow> alnum c"
    and r: "r = key_tail (drop 4 s)"
    by (auto simp: match_here_def split: if_splits)
  from pre obtain t s' k h rest where s: "s = t # s' # k # h # rest"
    and cs: "canonicalize t = CHR ''T''" "canonicalize s' = CHR ''S''" "canonicalize k = CHR ''K''"
            "h = CHR ''-''"
    unfolding tsk_prefix_take4 by blast
  from al s obtain c cs where rest: "rest = c # cs" and c: "alnum c"
    by (auto split: list.splits)
  from matches_body_first [OF c, of cs] obtain alts where
    b: "matches (Seq (Plus alnum_class) (Star hyphen_group)) rest =
          (None, drop (length (key_tail rest)) rest) # alts"
    using rest by blast
  have len: "length (key_tail rest) \<le> length rest" by (rule length_key_tail)
  have tk: "take (length rest - length (drop (length (key_tail rest)) rest)) rest = key_tail rest"
    using len key_tail_prefix [of rest] by simp
  have "matches (Group (Seq (Plus alnum_class) (Star hyphen_group))) rest =
      map (\<lambda>(c, s1). (Some (take (length rest - length s1) rest), s1))
          ((None, drop (length (key_tail rest)) rest) # alts)"
    by (simp only: matches.simps(5) b)
  then obtain alts' where g: "matches (Group (Seq (Plus alnum_class) (Star hyphen_group))) rest =
      (Some (key_tail rest), drop (length (key_tail rest)) rest) # alts'"
    using tk by simp
  have d4: "drop 4 s = rest" using s by simp
  have "drop (4 + length r) s = drop (length r) (drop 4 s)" by (simp add: add.commute)
  then have dr: "drop (4 + length r) s = drop (length (key_tail rest)) rest"
    using r d4 by simp
  have "matches tsk_regex s = matches (Group (Seq (Plus alnum_class) (Star hyphen_group))) rest"
    using s cs by (simp add: tsk_regex_def matches_Seq_Lit canonicalize_TSK del: matches.simps)
  then show ?thesis
    using g r d4 dr by simp
qed

lemma matches_tsk_None:
  assumes "match_here s = None"
  shows "matches tsk_regex s = []"
proof (cases "tsk_prefix (take 4 s)")
  case True
  then obtain t s' k h rest where s: "s = t # s' # k # h # rest"
    and cs: "canonicalize t = CHR ''T''" "canonicalize s' = CHR ''S''" "canonicalize k = CHR ''K''"
            "h = CHR ''-''"
    unfolding tsk_prefix_take4 by blast
  from assms True s have "case rest of [] \<Rightarrow> True | c # cs \<Rightarrow> \<not> alnum c"
    by (auto simp: match_here_def split: if_splits list.splits)
  then have "matches (Seq (Plus alnum_class) (Star hyphen_group)) rest = []"
    by (rule matches_body_none)
  then have "matches (Group (Seq (Plus alnum_class) (Star hyphen_group))) rest = []"
    by (simp only: matches.simps(5) list.map)
  then show ?thesis
    using s cs by (simp add: tsk_regex_def matches_Seq_Lit canonicalize_TSK del: matches.simps)
next
  case False
  then have n: "\<not> (\<exists>t s' k h rest. s = t # s' # k # h # rest \<and> canonicalize t = CHR ''T''
      \<and> canonicalize s' = CHR ''S'' \<and> canonicalize k = CHR ''K'' \<and> h = CHR ''-'')"
    unfolding tsk_prefix_take4 .
  show ?thesis
    using n by (auto simp: tsk_regex_def matches_Seq_Lit canonicalize_TSK canonicalize_hyphen
        simp del: matches.simps split: list.splits)
qed

lemma matchAll_scan_keys: "matchAll tsk_regex s = map Some (scan_keys s)"
proof (induction s rule: scan_keys.induct)
  case 1
  have "match_here [] = None" by (simp add: match_here_def tsk_prefix_def)
  then have "matches tsk_regex [] = []" by (rule matches_tsk_None)
  then show ?case by (subst matchAll.simps) simp
next
  case (2 c cs)
  show ?case
  proof (cases "match_here (c # cs)")
    case None
    then have "matches tsk_regex (c # cs) = []" by (rule matches_tsk_None)
    with None 2 show ?thesis by (subst matchAll.simps) simp
  next
    case (Some r)
    from matches_tsk_Some [OF Some] obtain alts where
      m: "matches tsk_regex (c # cs) = (Some r, drop (4 + length r) (c # cs)) # alts" by blast
    have ih: "matchAll tsk_regex (drop (4 + length r) (c # cs)) =
        map Some (scan_keys (drop (4 + length r) (c # cs)))"
      using 2(2) [OF Some] .
    show ?thesis
      by (subst matchAll.simps) (simp add: m Some ih del: drop_Suc_Cons)
  qed
qed

lemma foldl_set_add:
  "foldl set_add acc xs = acc @ dedup (filter (\<lambda>x. x \<notin> set acc) xs)"
proof (induction xs arbitrary: acc)
  case Nil
  show ?case by simp
next
  case (Cons x xs)
  show ?case
  proof (cases "x \<in> set acc")
    case True
    then have "set_add acc x = acc" by (simp add: set_add_def)
    with True show ?thesis by (simp add: Cons.IH)
  next
    case False
    then have sa: "set_add acc x = acc @ [x]" by (simp add: set_add_def)
    have "filter (\<lambda>y. y \<notin> set (acc @ [x])) xs = filter (\<lambda>y. y \<noteq> x) (filter (\<lambda>y. y \<notin> set acc) xs)"
      by (induction xs) auto
    with False show ?thesis by (simp add: sa Cons.IH)
  qed
qed

lemma set_dedup: "set (dedup xs) = set xs"
  by (induction xs rule: dedup.induct) auto

lemma distinct_dedup: "distinct (dedup xs)"
  by (induction xs rule: dedup.induct) (auto simp: set_dedup)

lemma detectTarefaKeys_refines: "detectTarefaKeys text = spec_detect text"
proof -
  have "map fullKey (map Some (scan_keys text)) = map (\<lambda>r. ''TSK-'' @ r) (scan_keys text)"
    by (simp add: fullKey_def)
  then have h: "map fullKey (matchAll tsk_regex text) = map (\<lambda>r. ''TSK-'' @ r) (scan_keys text)"
    by (simp only: matchAll_scan_keys)
  have "foldl set_add [] (map fullKey (matchAll tsk_regex text)) = spec_detect text"
    unfolding h foldl_set_add spec_detect_def by simp
  moreover have "spec_detect [] = []" by (simp add: spec_detect_def)
  ultimately show ?thesis by (simp add: detectTarefaKeys_def)
qed

lemma split_hyphen_not_Nil: "split_hyphen s \<noteq> []"
  by (induction s) (auto split: list.splits)

lemma split_hyphen_Cons:
  "c \<noteq> CHR ''-'' \<Longrightarrow> split_hyphen xs = g # gs \<Longrightarrow> split_hyphen (c # xs) = (c # g) # gs"
  by simp

lemma key_tail_groups:
  "alnum c \<Longrightarrow> \<forall>g \<in> set (split_hyphen (key_tail (c # cs))). g \<noteq> [] \<and> (\<forall>x \<in> set g. alnum x)"
proof (induction "length cs" arbitrary: c cs rule: less_induct)
  case less
  from less.prems have ch: "c \<noteq> CHR ''-''" using not_alnum_hyphen by auto
  have kt: "key_tail (c # cs) = c # key_tail cs" using less.prems by simp
  have "\<exists>g gs. split_hyphen (key_tail cs) = g # gs \<and> (\<forall>x \<in> set g. alnum x)
          \<and> (\<forall>g' \<in> set gs. g' \<noteq> [] \<and> (\<forall>x \<in> set g'. alnum x))"
  proof (cases cs)
    case Nil
    then show ?thesis by simp
  next
    case (Cons d ds)
    show ?thesis
    proof (cases "alnum d")
      case True
      have "length ds < length cs" using Cons by simp
      from less.hyps [OF this True]
      have ih: "\<forall>g \<in> set (split_hyphen (key_tail cs)). g \<noteq> [] \<and> (\<forall>x \<in> set g. alnum x)"
        unfolding Cons .
      obtain g gs where sp: "split_hyphen (key_tail cs) = g # gs"
        using split_hyphen_not_Nil [of "key_tail cs"] by (cases "split_hyphen (key_tail cs)") auto
      from ih show ?thesis unfolding sp by (simp del: key_tail.simps)
    next
      case False
      show ?thesis
      proof (cases "d = CHR ''-'' \<and> (case ds of [] \<Rightarrow> False | e # es \<Rightarrow> alnum e)")
        case True
        then obtain e es where ds: "ds = e # es" and e: "alnum e" and d: "d = CHR ''-''"
          by (auto split: list.splits)
        have "length es < length cs" using Cons ds by simp
        from less.hyps [OF this e]
        have ih: "\<forall>g \<in> set (split_hyphen (key_tail (e # es))). g \<noteq> [] \<and> (\<forall>x \<in> set g. alnum x)" .
        have "key_tail cs = CHR ''-'' # key_tail (e # es)"
          unfolding Cons ds d using e by (simp add: not_alnum_hyphen)
        then have "split_hyphen (key_tail cs) = [] # split_hyphen (key_tail (e # es))"
          by (simp del: key_tail.simps)
        with ih show ?thesis by (simp del: key_tail.simps)
      next
        case False2: False
        have "key_tail cs = []"
          unfolding Cons using False False2 by simp
        then show ?thesis by simp
      qed
    qed
  qed
  then obtain g gs where sp: "split_hyphen (key_tail cs) = g # gs"
    and g: "\<forall>x \<in> set g. alnum x"
    and gs: "\<forall>g' \<in> set gs. g' \<noteq> [] \<and> (\<forall>x \<in> set g'. alnum x)"
    by blast
  have "split_hyphen (key_tail (c # cs)) = (c # g) # gs"
    unfolding kt using ch sp by (rule split_hyphen_Cons)
  with g gs less.prems show ?case by (simp del: key_tail.simps)
qed

lemma key_tail_stops: "key_tail (drop (length (key_tail s)) s) = []"
  by (induction s) auto

lemma match_here_sound:
  assumes "match_here s = Some r"
  shows "key_rest r \<and> (\<exists>p. tsk_prefix p \<and> s = p @ r @ drop (4 + length r) s)
         \<and> key_tail (drop (4 + length r) s) = []"
proof -
  from assms have pre: "tsk_prefix (take 4 s)"
    and al: "case drop 4 s of [] \<Rightarrow> False | c # cs \<Rightarrow> alnum c"
    and r: "r = key_tail (drop 4 s)"
    by (auto simp: match_here_def split: if_splits)
  from al obtain c cs where d4: "drop 4 s = c # cs" and c: "alnum c"
    by (auto split: list.splits)
  have kr: "key_rest r"
    unfolding key_rest_def r d4 by (rule key_tail_groups [OF c])
  have dd: "drop (4 + length r) s = drop (length r) (drop 4 s)" by (simp add: add.commute)
  have "drop 4 s = r @ drop (length r) (drop 4 s)"
    using key_tail_prefix [of "drop 4 s"] r by (metis append_take_drop_id)
  then have "s = take 4 s @ r @ drop (4 + length r) s"
    using dd by (metis append_take_drop_id)
  moreover have "key_tail (drop (length r) (drop 4 s)) = []"
    unfolding r by (rule key_tail_stops)
  then have "key_tail (drop (4 + length r) s) = []"
    by (simp only: dd)
  ultimately show ?thesis using kr pre by blast
qed

lemma scan_keys_sound:
  "r \<in> set (scan_keys s) \<Longrightarrow>
   key_rest r \<and> (\<exists>pre p post. s = pre @ p @ r @ post \<and> tsk_prefix p \<and> key_tail post = [])"
proof (induction s rule: scan_keys.induct)
  case 1
  then show ?case by simp
next
  case (2 c cs)
  show ?case
  proof (cases "match_here (c # cs)")
    case None
    with 2 have "key_rest r \<and> (\<exists>pre p post. cs = pre @ p @ r @ post \<and> tsk_prefix p \<and> key_tail post = [])"
      by simp
    then obtain pre p post where "key_rest r" "cs = pre @ p @ r @ post" "tsk_prefix p" "key_tail post = []"
      by blast
    then have "c # cs = (c # pre) @ p @ r @ post" by simp
    with \<open>key_rest r\<close> \<open>tsk_prefix p\<close> \<open>key_tail post = []\<close> show ?thesis by blast
  next
    case (Some r')
    let ?rest = "drop (4 + length r') (c # cs)"
    from match_here_sound [OF Some] obtain p where
      h: "key_rest r'" "tsk_prefix p" "c # cs = p @ r' @ ?rest" "key_tail ?rest = []" by blast
    from 2(3) Some have "r = r' \<or> r \<in> set (scan_keys ?rest)" by simp
    then show ?thesis
    proof
      assume "r = r'"
      with h have "c # cs = [] @ p @ r @ ?rest" by simp
      with h \<open>r = r'\<close> show ?thesis by blast
    next
      assume "r \<in> set (scan_keys ?rest)"
      with 2(2) [OF Some] obtain pre q post where
        i: "key_rest r" "?rest = pre @ q @ r @ post" "tsk_prefix q" "key_tail post = []" by blast
      from h(3) i(2) have "c # cs = (p @ r' @ pre) @ q @ r @ post" by simp
      with i show ?thesis by blast
    qed
  qed
qed

lemma key_rest_starts_alnum:
  assumes "key_rest r"
  shows "\<exists>c cs. r = c # cs \<and> alnum c"
proof (cases r)
  case Nil
  with assms show ?thesis by (simp add: key_rest_def)
next
  case (Cons c cs)
  obtain g gs where sp: "split_hyphen cs = g # gs"
    using split_hyphen_not_Nil [of cs] by (cases "split_hyphen cs") auto
  show ?thesis
  proof (cases "c = CHR ''-''")
    case True
    with assms Cons show ?thesis by (simp add: key_rest_def)
  next
    case False
    with assms Cons sp have "alnum c" by (simp add: key_rest_def)
    with Cons show ?thesis by simp
  qed
qed

lemma match_here_complete:
  assumes "tsk_prefix p" and "key_rest r"
  shows "match_here (p @ r @ post) \<noteq> None"
proof -
  from assms(1) have "length (map canonicalize p) = length ''TSK-''"
    unfolding tsk_prefix_def by simp
  then have l: "length p = 4" by simp
  from key_rest_starts_alnum [OF assms(2)] obtain c cs where r: "r = c # cs" and c: "alnum c"
    by blast
  from l have "take 4 (p @ r @ post) = p" "drop 4 (p @ r @ post) = c # cs @ post"
    using r by simp_all
  with assms(1) c show ?thesis by (simp add: match_here_def)
qed

lemma scan_keys_complete:
  assumes "tsk_prefix p" and "key_rest r"
  shows "scan_keys (pre @ p @ r @ post) \<noteq> []"
proof (induction pre)
  case Nil
  from match_here_complete [OF assms, of post] obtain r' where
    m: "match_here (p @ r @ post) = Some r'" by blast
  from assms(1) have "p \<noteq> []" by (auto simp: tsk_prefix_def)
  then obtain c cs where "p @ r @ post = c # cs" by (cases p) auto
  with m show ?case by simp
next
  case (Cons a pre)
  show ?case
  proof (cases "match_here (a # pre @ p @ r @ post)")
    case None
    then have "scan_keys ((a # pre) @ p @ r @ post) = scan_keys (pre @ p @ r @ post)" by simp
    with Cons show ?thesis by simp
  next
    case (Some r')
    then show ?thesis by simp
  qed
qed

text \<open>
  Claim C3. On every text the detector built on the regular expression returns what the
  specification's scanner returns: the keys \<open>TSK-\<close> followed by the remainder of each
  match, from left to right, without duplicates. Every key returned comes from a
  substring of the text made of \<open>TSK-\<close> in any casing and one or more hyphen-separated
  alphanumeric groups, taken as far as it extends and kept in its own casing; a text
  that holds such a substring yields at least one key; \<open>TSK-\<close> alone is never a key.
\<close>

theorem detectTarefaKeys_spec:
  "detectTarefaKeys text = spec_detect text
   \<and> distinct (detectTarefaKeys text)
   \<and> set (detectTarefaKeys text) = (\<lambda>r. ''TSK-'' @ r) ` set (scan_keys text)
   \<and> (\<forall>k \<in> set (detectTarefaKeys text).
         \<exists>pre p r post. k = ''TSK-'' @ r \<and> key_rest r \<and> tsk_prefix p
            \<and> text = pre @ p @ r @ post \<and> key_tail post = [])
   \<and> ((\<exists>pre p r post. text = pre @ p @ r @ post \<and> tsk_prefix p \<and> key_rest r)
         \<longrightarrow> detectTarefaKeys text \<noteq> [])
   \<and> ''TSK-'' \<notin> set (detectTarefaKeys text)"
proof -
  have eq: "detectTarefaKeys text = spec_detect text" by (rule detectTarefaKeys_refines)
  have st: "set (detectTarefaKeys text) = (\<lambda>r. ''TSK-'' @ r) ` set (scan_keys text)"
    unfolding eq spec_detect_def set_dedup by simp
  have di: "distinct (detectTarefaKeys text)"
    unfolding eq spec_detect_def by (rule distinct_dedup)
  have snd: "\<forall>k \<in> set (detectTarefaKeys text).
         \<exists>pre p r post. k = ''TSK-'' @ r \<and> key_rest r \<and> tsk_prefix p
            \<and> text = pre @ p @ r @ post \<and> key_tail post = []"
  proof
    fix k assume "k \<in> set (detectTarefaKeys text)"
    with st obtain r where r: "r \<in> set (scan_keys text)" and k: "k = ''TSK-'' @ r" by auto
    from scan_keys_sound [OF r] k show "\<exists>pre p r post. k = ''TSK-'' @ r \<and> key_rest r \<and> tsk_prefix p
            \<and> text = pre @ p @ r @ post \<and> key_tail post = []" by blast
  qed
  have cmp: "(\<exists>pre p r post. text = pre @ p @ r @ post \<and> tsk_prefix p \<and> key_rest r)
         \<longrightarrow> detectTarefaKeys text \<noteq> []"
  proof
    assume "\<exists>pre p r post. text = pre @ p @ r @ post \<and> tsk_prefix p \<and> key_rest r"
    then obtain pre p r post where "text = pre @ p @ r @ post" "tsk_prefix p" "key_rest r" by blast
    with scan_keys_complete [of p r pre post] have "scan_keys text \<noteq> []" by simp
    then have "set (scan_keys text) \<noteq> {}" by simp
    with st have "set (detectTarefaKeys text) \<noteq> {}" by simp
    then show "detectTarefaKeys text \<noteq> []" by auto
  qed
  have bare: "''TSK-'' \<notin> set (detectTarefaKeys text)"
  proof
    assume "''TSK-'' \<in> set (detectTarefaKeys text)"
    with st obtain r where r: "r \<in> set (scan_keys text)" and "''TSK-'' = ''TSK-'' @ r" by auto
    then have "r = []" by simp
    moreover from scan_keys_sound [OF r] have "key_rest r" by simp
    ultimately show False by (simp add: key_rest_def)
  qed
  show ?thesis by (intro conjI; fact)
qed

text \<open>For evaluation: the class written out.\<close>

lemma alnum_code [code]:
  "alnum c = (canonicalize c \<in> set ''ABCDEFGHIJKLMNOPQRSTUVWXYZ0123456789'')"
  unfolding alnum_def class_chars_alnum ..

text \<open>C3 on the specification's example, and on a bare \<open>TSK-\<close>.\<close>

theorem detectTarefaKeys_spec_witness:
  "detectTarefaKeys example_text = [''TSK-12'', ''TSK-AB-7'']
   \<and> scan_keys example_text = [''12'', ''12'', ''AB-7'']
   \<and> example_text = ''fix '' @ ''TSK-'' @ ''12'' @ '' and tsk-12 again, also TSK-AB-7''
   \<and> tsk_prefix ''TSK-'' \<and> tsk_prefix ''tsk-'' \<and> key_rest ''12'' \<and> key_rest ''AB-7''
   \<and> detectTarefaKeys ''TSK-'' = []
   \<and> detectTarefaKeys ''see tsk-ab-7 and TSK-AB-7'' = [''TSK-ab-7'', ''TSK-AB-7'']"
proof -
  have sc: "scan_keys example_text = [''12'', ''12'', ''AB-7'']" by code_simp
  have sp: "spec_detect example_text = [''TSK-12'', ''TSK-AB-7'']" by code_simp
  have ex: "example_text = ''fix '' @ ''TSK-'' @ ''12'' @ '' and tsk-12 again, also TSK-AB-7''"
    by (simp add: example_text_def)
  have pk: "tsk_prefix ''TSK-''" "tsk_prefix ''tsk-''" "key_rest ''12''" "key_rest ''AB-7''"
    by code_simp+
  from detectTarefaKeys_spec [of example_text] sp
  have d1: "detectTarefaKeys example_text = [''TSK-12'', ''TSK-AB-7'']" by simp
  have "spec_detect ''TSK-'' = []" by code_simp
  with detectTarefaKeys_spec [of "''TSK-''"] have d2: "detectTarefaKeys ''TSK-'' = []" by simp
  have "spec_detect ''see tsk-ab-7 and TSK-AB-7'' = [''TSK-ab-7'', ''TSK-AB-7'']" by code_simp
  with detectTarefaKeys_spec [of "''see tsk-ab-7 and TSK-AB-7''"]
  have d3: "detectTarefaKeys ''see tsk-ab-7 and TSK-AB-7'' = [''TSK-ab-7'', ''TSK-AB-7'']" by simp
  show ?thesis by (intro conjI; fact)
qed

section \<open>Facts about queries\<close>

lemma maybeSingle_Some: "fst (maybeSingle rows) = Some r \<longleftrightarrow> rows = [r]"
  by (cases rows rule: maybeSingle.cases) auto

lemma maybeSingle_None: "fst (maybeSingle rows) = None \<longleftrightarrow> length rows \<noteq> 1"
  by (cases rows rule: maybeSingle.cases) auto

lemma filter_singleton_distinct:
  "distinct (map f rows) \<Longrightarrow> r \<in> set rows \<Longrightarrow> filter (\<lambda>x. f x = f r) rows = [r]"
proof (induction rows)
  case Nil
  then show ?case by simp
next
  case (Cons a rows)
  show ?case
  proof (cases "a = r")
    case True
    with Cons.prems have "\<forall>x\<in>set rows. f x \<noteq> f r" by (auto simp: image_iff)
    then have "filter (\<lambda>x. f x = f r) rows = []" by (simp add: filter_empty_conv)
    with True show ?thesis by simp
  next
    case False
    with Cons.prems have "r \<in> set rows" "f a \<noteq> f r" "distinct (map f rows)" by (auto simp: image_iff)
    with Cons.IH show ?thesis by simp
  qed
qed

section \<open>Properties of the permission checks\<close>

text \<open>
  What \<^verbatim>\<open>canReviewPR\<close> computes. It is false when the caller is the author of the pull
  request and when no pull request has the given id. For a pull request of another author
  (ids being the primary key), it is true exactly when the lookup by \<^verbatim>\<open>repo_id\<close> finds
  exactly one linked project and \<^verbatim>\<open>getProjectRole\<close> finds a role of the caller in it: a
  repository linked to no project gives false, and so does one linked to several, where
  the lookup returns an error and no row.
\<close>

lemma canReviewPR_single_link:
  "((\<exists>pr \<in> set (pull_requests d). pr_id pr = prId \<and> pr_author_id pr = Some userId)
      \<longrightarrow> \<not> canReviewPR d userId prId)
   \<and> ((\<forall>pr \<in> set (pull_requests d). pr_id pr \<noteq> prId) \<longrightarrow> \<not> canReviewPR d userId prId)
   \<and> (distinct (map pr_id (pull_requests d)) \<and> pr \<in> set (pull_requests d) \<and> pr_id pr = prId
        \<and> pr_author_id pr \<noteq> Some userId \<longrightarrow>
        canReviewPR d userId prId =
          (\<exists>projectId. linked_projects d (pr_repo_id pr) = [projectId]
                       \<and> getProjectRole d userId projectId \<noteq> None))"
proof (intro conjI impI)
  assume "\<exists>pr \<in> set (pull_requests d). pr_id pr = prId \<and> pr_author_id pr = Some userId"
  then obtain pr where pr: "pr \<in> set (pull_requests d)" "pr_id pr = prId" "pr_author_id pr = Some userId"
    by blast
  show "\<not> canReviewPR d userId prId"
  proof (cases "fst (maybeSingle (filter (\<lambda>p. pr_id p = prId) (pull_requests d)))")
    case None
    then show ?thesis by (simp add: canReviewPR_def)
  next
    case (Some q)
    then have "filter (\<lambda>p. pr_id p = prId) (pull_requests d) = [q]" by (simp add: maybeSingle_Some)
    moreover from pr have "pr \<in> set (filter (\<lambda>p. pr_id p = prId) (pull_requests d))" by simp
    ultimately have "q = pr" by simp
    with Some pr show ?thesis by (simp add: canReviewPR_def)
  qed
next
  assume "\<forall>pr \<in> set (pull_requests d). pr_id pr \<noteq> prId"
  then have "filter (\<lambda>p. pr_id p = prId) (pull_requests d) = []" by (simp add: filter_empty_conv)
  then show "\<not> canReviewPR d userId prId" by (simp add: canReviewPR_def)
next
  assume a: "distinct (map pr_id (pull_requests d)) \<and> pr \<in> set (pull_requests d) \<and> pr_id pr = prId
        \<and> pr_author_id pr \<noteq> Some userId"
  then have "filter (\<lambda>p. pr_id p = pr_id pr) (pull_requests d) = [pr]"
    using filter_singleton_distinct [of pr_id "pull_requests d" pr] by simp
  with a have one: "filter (\<lambda>p. pr_id p = prId) (pull_requests d) = [pr]" by simp
  show "canReviewPR d userId prId =
          (\<exists>projectId. linked_projects d (pr_repo_id pr) = [projectId]
                       \<and> getProjectRole d userId projectId \<noteq> None)"
  proof (cases "fst (maybeSingle (filter (\<lambda>r. prj_repo_id r = pr_repo_id pr) (project_repos d)))")
    case None
    then have "length (linked_projects d (pr_repo_id pr)) \<noteq> 1"
      by (simp add: maybeSingle_None linked_projects_def)
    then have "\<not> (\<exists>projectId. linked_projects d (pr_repo_id pr) = [projectId])" by auto
    with None one a show ?thesis by (simp add: canReviewPR_def)
  next
    case (Some link)
    then have "filter (\<lambda>r. prj_repo_id r = pr_repo_id pr) (project_repos d) = [link]"
      by (simp add: maybeSingle_Some)
    then have "linked_projects d (pr_repo_id pr) = [prj_project_id link]"
      by (simp add: linked_projects_def)
    with Some one a show ?thesis by (simp add: canReviewPR_def)
  qed
qed

text \<open>
  Claim C9 at a store where the repository of pull request \<open>pr1\<close> is linked to two
  projects and \<open>bob\<close>, who is not the author, is a member of both. The lookup of the
  project by \<^verbatim>\<open>repo_id\<close> matches two rows, \<^verbatim>\<open>maybeSingle()\<close> yields no row, and
  \<^verbatim>\<open>canReviewPR\<close> answers false although \<open>bob\<close> holds a role in every project the
  repository is linked to; the policy "Reviewers can create reviews" admits \<open>bob\<close> on the
  same store. With the repository linked to one project (\<open>review_db\<close>) \<^verbatim>\<open>canReviewPR\<close>
  admits \<open>bob\<close> too.
\<close>

theorem canReviewPR_rejects_member:
  "pull_requests review_db2 = [\<lparr> pr_id = ''pr1'', pr_repo_id = ''repo1'', pr_author_id = Some ''alice'' \<rparr>]
   \<and> linked_projects review_db2 ''repo1'' = [''p1'', ''p2'']
   \<and> getProjectRole review_db2 ''bob'' ''p1'' = Some developer
   \<and> getProjectRole review_db2 ''bob'' ''p2'' = Some developer
   \<and> reviewers_can_create_reviews review_db2 ''bob'' ''pr1''
   \<and> \<not> canReviewPR review_db2 ''bob'' ''pr1''
   \<and> reviewers_can_create_reviews review_db ''bob'' ''pr1''
   \<and> canReviewPR review_db ''bob'' ''pr1''"
  by (simp add: canReviewPR_def reviewers_can_create_reviews_def linked_projects_def
      getProjectRole_def review_db2_def review_db_def empty_db_def)

section \<open>Properties of the auto-linker\<close>

text \<open>One turn of the loop and the rows its existence query selects.\<close>

lemma linkData_matches: "existingLinkQuery tid md (linkData tid et eid md)"
  by (simp add: existingLinkQuery_def linkData_def)

lemma linkData_other: "tid' \<noteq> tid \<Longrightarrow> \<not> existingLinkQuery tid' md (linkData tid et eid md)"
  by (simp add: existingLinkQuery_def linkData_def)

lemma link_tarefa_tarefas: "tarefas (link_tarefa et eid md d t) = tarefas d"
  by (simp add: link_tarefa_def insert_link_def split: option.splits)

lemma link_tarefa_other:
  "t_id t' \<noteq> t_id t \<Longrightarrow>
   filter (existingLinkQuery (t_id t') md) (tarefa_git_links (link_tarefa et eid md d t))
     = filter (existingLinkQuery (t_id t') md) (tarefa_git_links d)"
  by (simp add: link_tarefa_def insert_link_def linkData_other split: option.splits)

lemma link_tarefa_fixed:
  assumes "length (filter (existingLinkQuery (t_id t) md) (tarefa_git_links d)) = 1"
  shows "link_tarefa et eid md d t = d"
proof -
  from assms obtain l where "filter (existingLinkQuery (t_id t) md) (tarefa_git_links d) = [l]"
    by (auto simp: length_Suc_conv)
  then show ?thesis by (simp add: link_tarefa_def)
qed

lemma link_tarefa_one:
  assumes "length (filter (existingLinkQuery (t_id t) md) (tarefa_git_links d)) \<le> 1"
  shows "length (filter (existingLinkQuery (t_id t) md)
           (tarefa_git_links (link_tarefa et eid md d t))) = 1"
proof (cases "filter (existingLinkQuery (t_id t) md) (tarefa_git_links d) = []")
  case True
  then show ?thesis by (simp add: link_tarefa_def insert_link_def linkData_matches)
next
  case False
  with assms have one: "length (filter (existingLinkQuery (t_id t) md) (tarefa_git_links d)) = 1"
    by (cases "filter (existingLinkQuery (t_id t) md) (tarefa_git_links d)") auto
  then show ?thesis by (simp add: link_tarefa_fixed)
qed

lemma foldl_link_tarefas: "tarefas (foldl (link_tarefa et eid md) d ts) = tarefas d"
  by (induction ts arbitrary: d) (simp_all add: link_tarefa_tarefas)

lemma foldl_link_other:
  "t_id t' \<notin> t_id ` set ts \<Longrightarrow>
   filter (existingLinkQuery (t_id t') md) (tarefa_git_links (foldl (link_tarefa et eid md) d ts))
     = filter (existingLinkQuery (t_id t') md) (tarefa_git_links d)"
  by (induction ts arbitrary: d) (simp_all add: link_tarefa_other)

lemma foldl_link_one:
  "distinct (map t_id ts) \<Longrightarrow>
   \<forall>t\<in>set ts. length (filter (existingLinkQuery (t_id t) md) (tarefa_git_links d)) \<le> 1 \<Longrightarrow>
   \<forall>t\<in>set ts. length (filter (existingLinkQuery (t_id t) md)
                  (tarefa_git_links (foldl (link_tarefa et eid md) d ts))) = 1"
proof (induction ts arbitrary: d)
  case Nil
  then show ?case by simp
next
  case (Cons a ts)
  let ?d1 = "link_tarefa et eid md d a"
  have a1: "length (filter (existingLinkQuery (t_id a) md) (tarefa_git_links ?d1)) = 1"
    using Cons.prems(2) by (simp add: link_tarefa_one)
  have rest: "\<forall>t\<in>set ts. length (filter (existingLinkQuery (t_id t) md) (tarefa_git_links ?d1)) \<le> 1"
  proof
    fix t assume t: "t \<in> set ts"
    with Cons.prems(1) have "t_id t \<noteq> t_id a" by (auto simp: image_iff)
    then show "length (filter (existingLinkQuery (t_id t) md) (tarefa_git_links ?d1)) \<le> 1"
      using Cons.prems(2) t by (simp add: link_tarefa_other)
  qed
  from Cons.prems(1) have dist: "distinct (map t_id ts)" and notin: "t_id a \<notin> t_id ` set ts"
    by auto
  have ih: "\<forall>t\<in>set ts. length (filter (existingLinkQuery (t_id t) md)
                  (tarefa_git_links (foldl (link_tarefa et eid md) ?d1 ts))) = 1"
    by (rule Cons.IH [OF dist rest])
  have "length (filter (existingLinkQuery (t_id a) md)
                  (tarefa_git_links (foldl (link_tarefa et eid md) ?d1 ts))) = 1"
    using foldl_link_other [OF notin, of md et eid ?d1] a1 by simp
  with ih show ?case by simp
qed

lemma foldl_link_fixed:
  "\<forall>t\<in>set ts. length (filter (existingLinkQuery (t_id t) md) (tarefa_git_links d)) = 1 \<Longrightarrow>
   foldl (link_tarefa et eid md) d ts = d"
  by (induction ts) (simp_all add: link_tarefa_fixed)

text \<open>
  When task identifiers are unique and the existence query of every resolved task matches
  at most one stored link, a second run of \<^verbatim>\<open>createAutoLinks\<close> with the same arguments
  leaves the store of the first run as it is.
\<close>

lemma createAutoLinks_idempotent:
  assumes ids: "distinct (map t_id (tarefas d))"
    and one: "\<forall>t\<in>set (tarefas d). t_project_id t = projectId \<and> t_key t \<in> set tarefaKeys \<longrightarrow>
                length (filter (existingLinkQuery (t_id t) metadata) (tarefa_git_links d)) \<le> 1"
  shows "createAutoLinks (createAutoLinks d tarefaKeys projectId repoId entityType entityId metadata)
           tarefaKeys projectId repoId entityType entityId metadata
         = createAutoLinks d tarefaKeys projectId repoId entityType entityId metadata"
proof -
  let ?found = "filter (\<lambda>t. t_project_id t = projectId \<and> t_key t \<in> set tarefaKeys) (tarefas d)"
  let ?d1 = "foldl (link_tarefa entityType entityId metadata) d ?found"
  have dist: "distinct (map t_id ?found)" using ids by (rule distinct_map_filter)
  have le: "\<forall>t\<in>set ?found. length (filter (existingLinkQuery (t_id t) metadata) (tarefa_git_links d)) \<le> 1"
    using one by simp
  have "\<forall>t\<in>set ?found. length (filter (existingLinkQuery (t_id t) metadata) (tarefa_git_links ?d1)) = 1"
    by (rule foldl_link_one [OF dist le])
  then have fixed: "foldl (link_tarefa entityType entityId metadata) ?d1 ?found = ?d1"
    by (rule foldl_link_fixed)
  show ?thesis
    by (simp add: createAutoLinks_def Let_def foldl_link_tarefas fixed)
qed

text \<open>
  Claim C10. \<^verbatim>\<open>processAutoLink\<close> returns the keys \<^verbatim>\<open>detectTarefaKeys\<close> finds in the text,
  whatever the store holds (so whether or not a key names a task of the project, and
  whether or not a row gets created), and with no key found it leaves the store as it is.
\<close>

theorem processAutoLink_returns_keys:
  "fst (processAutoLink d text projectId repoId entityType entityId metadata) = detectTarefaKeys text
   \<and> (detectTarefaKeys text = [] \<longrightarrow>
        snd (processAutoLink d text projectId repoId entityType entityId metadata) = d)"
  by (simp add: processAutoLink_def Let_def)

text \<open>C10 on samples: the same key comes back from a store without the task and from one
  with it (where a link is created), and a text without a key changes nothing.\<close>

theorem processAutoLink_returns_keys_witness:
  "detectTarefaKeys ''no key'' = []
   \<and> processAutoLink tasks_db ''no key'' ''p1'' ''repo1'' pull_request_entity ''pr-uuid'' pr42
       = ([], tasks_db)
   \<and> fst (processAutoLink empty_db ''fix TSK-12'' ''p1'' ''repo1'' pull_request_entity ''pr-uuid'' pr42)
       = [''TSK-12'']
   \<and> fst (processAutoLink tasks_db ''fix TSK-12'' ''p1'' ''repo1'' pull_request_entity ''pr-uuid'' pr42)
       = [''TSK-12'']
   \<and> tarefa_git_links (snd (processAutoLink empty_db ''fix TSK-12'' ''p1'' ''repo1''
         pull_request_entity ''pr-uuid'' pr42)) = []
   \<and> length (tarefa_git_links (snd (processAutoLink tasks_db ''fix TSK-12'' ''p1'' ''repo1''
         pull_request_entity ''pr-uuid'' pr42))) = 1"
proof -
  have k0: "detectTarefaKeys ''no key'' = []"
    unfolding detectTarefaKeys_refines by code_simp
  have k1: "detectTarefaKeys ''fix TSK-12'' = [''TSK-12'']"
    unfolding detectTarefaKeys_refines by code_simp
  have p0: "processAutoLink tasks_db ''no key'' ''p1'' ''repo1'' pull_request_entity ''pr-uuid'' pr42
       = ([], tasks_db)"
    using processAutoLink_returns_keys
      [of tasks_db "''no key''" "''p1''" "''repo1''" pull_request_entity "''pr-uuid''" pr42] k0
    by (simp add: prod_eq_iff)
  have p1: "fst (processAutoLink empty_db ''fix TSK-12'' ''p1'' ''repo1'' pull_request_entity ''pr-uuid'' pr42)
       = [''TSK-12'']"
    using processAutoLink_returns_keys
      [of empty_db "''fix TSK-12''" "''p1''" "''repo1''" pull_request_entity "''pr-uuid''" pr42] k1
    by simp
  have p2: "fst (processAutoLink tasks_db ''fix TSK-12'' ''p1'' ''repo1'' pull_request_entity ''pr-uuid'' pr42)
       = [''TSK-12'']"
    using processAutoLink_returns_keys
      [of tasks_db "''fix TSK-12''" "''p1''" "''repo1''" pull_request_entity "''pr-uuid''" pr42] k1
    by simp
  have l1: "tarefa_git_links (snd (processAutoLink empty_db ''fix TSK-12'' ''p1'' ''repo1''
         pull_request_entity ''pr-uuid'' pr42)) = []"
    by (simp add: processAutoLink_def k1 createAutoLinks_def empty_db_def)
  have l2: "length (tarefa_git_links (snd (processAutoLink tasks_db ''fix TSK-12'' ''p1'' ''repo1''
         pull_request_entity ''pr-uuid'' pr42))) = 1"
    by (simp add: processAutoLink_def k1 createAutoLinks_def tasks_db_def empty_db_def
        link_tarefa_def insert_link_def)
  show ?thesis by (intro conjI; fact)
qed


section \<open>Properties of the OAuth callback\<close>

lemma select_state_stale: "valid_states d st (now w) = [] \<Longrightarrow> select_state w d st = None"
  by (simp add: select_state_def)

lemma rejects_stale:
  assumes "\<forall>st. state_param req = Some st \<longrightarrow> valid_states d st (now w) = []"
  shows "handleOAuthCallback cfg w d req =
           (Returns (error_redirect cfg (rejection_message cfg req)), d, [])"
proof (cases "configured cfg \<and> well_formed req")
  case True
  then obtain st where st: "state_param req = Some st"
    by (auto simp: well_formed_def truthy_def split: option.splits)
  with assms have "select_state w d st = None" by (simp add: select_state_stale)
  with True st show ?thesis
    by (simp add: handleOAuthCallback_def rejection_message_def configured_def well_formed_def)
next
  case False
  then show ?thesis
    by (auto simp: handleOAuthCallback_def rejection_message_def configured_def well_formed_def)
qed

lemma oauth_identity_ok:
  assumes "exchange_ok w" and "identity_ok w"
  shows "\<exists>accessToken scopes githubUser.
           oauth_identity cfg w code = Inr (accessToken, scopes, githubUser)
           \<and> user_id githubUser \<noteq> None"
  using assms
  by (auto simp: oauth_identity_def exchange_ok_def identity_ok_def truthy_def
      split: io.splits option.splits)

lemma oauth_identity_fails:
  assumes "\<not> (exchange_ok w \<and> identity_ok w)"
  shows "(\<exists>left calls. oauth_identity cfg w code = Inl (left, calls))
         \<or> (\<exists>accessToken scopes githubUser.
               oauth_identity cfg w code = Inr (accessToken, scopes, githubUser)
               \<and> user_id githubUser = None)"
  using assms
  by (auto simp: oauth_identity_def exchange_ok_def identity_ok_def truthy_def
      split: io.splits option.splits)

lemma oauth_persist_states:
  "oauth_persist cfg w d oauthState accessToken scopes githubUser = Inr (connectionId, d1)
   \<Longrightarrow> github_oauth_states d1 = github_oauth_states d"
  by (auto simp: oauth_persist_def update_connection_def insert_connection_def
      split: option.splits)

lemma oauth_persist_ok:
  assumes "persist_ok w" and "user_id githubUser \<noteq> None"
  shows "\<exists>connectionId d1. oauth_persist cfg w d oauthState accessToken scopes githubUser
           = Inr (connectionId, d1)"
  using assms by (auto simp: oauth_persist_def persist_ok_def split: option.splits)

lemma oauth_persist_fails:
  assumes "\<not> persist_ok w \<or> user_id githubUser = None"
  shows "\<exists>left. oauth_persist cfg w d oauthState accessToken scopes githubUser = Inl left"
  using assms by (auto simp: oauth_persist_def persist_ok_def split: option.splits)

lemma handleOAuthCallback_states:
  assumes "configured cfg" and "well_formed req"
    and "select_state w d (the (state_param req)) = Some oauthState"
  shows "github_oauth_states (fst (snd (handleOAuthCallback cfg w d req))) =
           (if exchange_ok w \<and> identity_ok w \<and> persist_ok w
            then filter (\<lambda>s. os_state s \<noteq> the (state_param req)) (github_oauth_states d)
            else github_oauth_states d)"
proof (cases "exchange_ok w \<and> identity_ok w")
  case True
  from oauth_identity_ok [of w cfg "the (code_param req)"] True obtain accessToken scopes githubUser
    where i: "oauth_identity cfg w (the (code_param req)) = Inr (accessToken, scopes, githubUser)"
      and u: "user_id githubUser \<noteq> None" by blast
  show ?thesis
  proof (cases "persist_ok w")
    case p: True
    from oauth_persist_ok [OF p u] obtain connectionId d1 where
      ps: "oauth_persist cfg w d oauthState accessToken scopes githubUser = Inr (connectionId, d1)"
      by blast
    from oauth_persist_states [OF ps] have "github_oauth_states d1 = github_oauth_states d" .
    with assms True p i ps show ?thesis
      by (simp add: handleOAuthCallback_def configured_def well_formed_def
          logAuditEvent_def delete_state_def)
  next
    case p: False
    then obtain left where
      "oauth_persist cfg w d oauthState accessToken scopes githubUser = Inl left"
      using oauth_persist_fails by blast
    with assms True p i show ?thesis
      by (simp add: handleOAuthCallback_def configured_def well_formed_def)
  qed
next
  case False
  from oauth_identity_fails [of w cfg "the (code_param req)"] False
  consider (l) left calls where "oauth_identity cfg w (the (code_param req)) = Inl (left, calls)"
    | (r) accessToken scopes githubUser where
        "oauth_identity cfg w (the (code_param req)) = Inr (accessToken, scopes, githubUser)"
        "user_id githubUser = None"
    by blast
  then show ?thesis
  proof cases
    case l
    with assms False show ?thesis
      by (auto simp: handleOAuthCallback_def configured_def well_formed_def)
  next
    case r
    then obtain left where
      "oauth_persist cfg w d oauthState accessToken scopes githubUser = Inl left"
      using oauth_persist_fails by blast
    with assms False r show ?thesis
      by (auto simp: handleOAuthCallback_def configured_def well_formed_def)
  qed
qed

lemma handleOAuthStart_issues:
  assumes "handleOAuthStart cfg0 w0 d0 userId projectId = (res, d)" and "status res = 200"
  shows "valid_states d (random_uuid w0) t = (if t < now w0 + 300000 then
            [\<lparr> os_state = random_uuid w0, os_project_id = the projectId, os_user_id = userId,
               os_expires_at = now w0 + 300000 \<rparr>] else [])"
proof -
  from assms obtain pid where pid: "projectId = Some pid"
    by (cases projectId) (auto simp: handleOAuthStart_def json_error_def)
  from assms pid have fresh: "random_uuid w0 \<notin> os_state ` set (github_oauth_states d0)"
    by (auto simp: handleOAuthStart_def json_error_def Let_def split: if_splits)
  then have old: "filter (\<lambda>s. os_state s = random_uuid w0 \<and> t < os_expires_at s)
      (github_oauth_states d0) = []"
    by (force simp: filter_empty_conv)
  from assms pid fresh have "github_oauth_states d = github_oauth_states d0 @
      [\<lparr> os_state = random_uuid w0, os_project_id = pid, os_user_id = userId,
         os_expires_at = now w0 + 300000 \<rparr>]"
    by (auto simp: handleOAuthStart_def json_error_def Let_def split: if_splits)
  with old pid show ?thesis by (simp add: valid_states_def)
qed

text \<open>
  Claim C1, as amended. A callback whose state has no stored row with an expiry strictly
  in the future is answered with an error redirect, the store untouched and no call made
  to GitHub. The message is \<open>Invalid or expired state\<close> when the deployment is configured
  and the request carries both a code and a state; the checks of configuration and of
  the parameters come first and answer with their own messages. In particular: after a
  callback that ran to the end, the same request is rejected whenever it is replayed; and
  a state issued by \<^verbatim>\<open>POST /start\<close> is rejected from five minutes after its issue on.
\<close>

theorem handleOAuthCallback_rejects_stale_state:
  "((\<forall>st. state_param req = Some st \<longrightarrow> valid_states d st (now w) = []) \<longrightarrow>
      handleOAuthCallback cfg w d req =
        (Returns (error_redirect cfg (rejection_message cfg req)), d, []))
   \<and> (configured cfg \<and> well_formed req \<longrightarrow>
        rejection_message cfg req = ''Invalid or expired state'')
   \<and> (configured cfg \<and> well_formed req \<and> select_state w d (the (state_param req)) \<noteq> None
        \<and> exchange_ok w \<and> identity_ok w \<and> persist_ok w \<longrightarrow>
        handleOAuthCallback cfg w' (fst (snd (handleOAuthCallback cfg w d req))) req =
          (Returns (error_redirect cfg ''Invalid or expired state''),
           fst (snd (handleOAuthCallback cfg w d req)), []))
   \<and> (handleOAuthStart cfg0 w0 d0 userId projectId = (res, d) \<and> status res = 200
        \<and> state_param req = Some (random_uuid w0) \<and> now w0 + 5 * 60 * 1000 \<le> now w \<longrightarrow>
        handleOAuthCallback cfg w d req =
          (Returns (error_redirect cfg (rejection_message cfg req)), d, []))"
proof (intro conjI impI)
  assume "\<forall>st. state_param req = Some st \<longrightarrow> valid_states d st (now w) = []"
  then show "handleOAuthCallback cfg w d req =
        (Returns (error_redirect cfg (rejection_message cfg req)), d, [])"
    by (rule rejects_stale)
next
  assume "configured cfg \<and> well_formed req"
  then show "rejection_message cfg req = ''Invalid or expired state''"
    by (simp add: rejection_message_def)
next
  let ?d' = "fst (snd (handleOAuthCallback cfg w d req))"
  assume a: "configured cfg \<and> well_formed req \<and> select_state w d (the (state_param req)) \<noteq> None
        \<and> exchange_ok w \<and> identity_ok w \<and> persist_ok w"
  then obtain oauthState where "select_state w d (the (state_param req)) = Some oauthState"
    by auto
  with a have "github_oauth_states ?d' =
      filter (\<lambda>s. os_state s \<noteq> the (state_param req)) (github_oauth_states d)"
    using handleOAuthCallback_states [of cfg req w d oauthState] by simp
  then have "\<forall>st. state_param req = Some st \<longrightarrow> valid_states ?d' st (now w') = []"
    by (auto simp: valid_states_def filter_empty_conv)
  then have "handleOAuthCallback cfg w' ?d' req =
        (Returns (error_redirect cfg (rejection_message cfg req)), ?d', [])"
    by (rule rejects_stale)
  with a show "handleOAuthCallback cfg w' ?d' req =
        (Returns (error_redirect cfg ''Invalid or expired state''), ?d', [])"
    by (simp add: rejection_message_def)
next
  assume a: "handleOAuthStart cfg0 w0 d0 userId projectId = (res, d) \<and> status res = 200
        \<and> state_param req = Some (random_uuid w0) \<and> now w0 + 5 * 60 * 1000 \<le> now w"
  then have "valid_states d (random_uuid w0) (now w) = []"
    using handleOAuthStart_issues [of cfg0 w0 d0 userId projectId res d "now w"] by simp
  with a have "\<forall>st. state_param req = Some st \<longrightarrow> valid_states d st (now w) = []" by simp
  then show "handleOAuthCallback cfg w d req =
        (Returns (error_redirect cfg (rejection_message cfg req)), d, [])"
    by (rule rejects_stale)
qed

text \<open>C1 on samples: an expired state, a replay after a completed callback, and a state
  presented five minutes after \<^verbatim>\<open>POST /start\<close> issued it.\<close>

theorem handleOAuthCallback_rejects_stale_state_witness:
  "state_param callback_request = Some ''state-1''
   \<and> valid_states issued_db ''state-1'' (now later_world) = []
   \<and> handleOAuthCallback sample_config later_world issued_db callback_request =
       (Returns (error_redirect sample_config ''Invalid or expired state''), issued_db, [])
   \<and> configured sample_config \<and> well_formed callback_request
   \<and> select_state sample_world issued_db ''state-1'' \<noteq> None
   \<and> exchange_ok sample_world \<and> identity_ok sample_world \<and> persist_ok sample_world
   \<and> github_oauth_states (fst (snd (handleOAuthCallback sample_config sample_world issued_db
         callback_request))) = []
   \<and> handleOAuthCallback sample_config sample_world
         (fst (snd (handleOAuthCallback sample_config sample_world issued_db callback_request)))
         callback_request =
       (Returns (error_redirect sample_config ''Invalid or expired state''),
        fst (snd (handleOAuthCallback sample_config sample_world issued_db callback_request)), [])
   \<and> snd (handleOAuthStart sample_config sample_world admin_db ''alice'' (Some ''p1'')) = issued_db
   \<and> status (fst (handleOAuthStart sample_config sample_world admin_db ''alice'' (Some ''p1''))) = 200
   \<and> now sample_world + 5 * 60 * 1000 \<le> now later_world"
proof -
  have sp: "state_param callback_request = Some ''state-1''" by code_simp
  have vs: "valid_states issued_db ''state-1'' (now later_world) = []" by code_simp
  have cf: "configured sample_config" by code_simp
  have wf: "well_formed callback_request" by code_simp
  have ss: "select_state sample_world issued_db ''state-1'' \<noteq> None" by code_simp
  have ok: "exchange_ok sample_world" "identity_ok sample_world" "persist_ok sample_world"
    by code_simp+
  have st: "snd (handleOAuthStart sample_config sample_world admin_db ''alice'' (Some ''p1'')) = issued_db"
    by code_simp
  have s2: "status (fst (handleOAuthStart sample_config sample_world admin_db ''alice'' (Some ''p1''))) = 200"
    by code_simp
  have ru: "random_uuid sample_world = ''state-1''" by code_simp
  have tm: "now sample_world + 5 * 60 * 1000 \<le> now later_world" by code_simp
  have del: "github_oauth_states (fst (snd (handleOAuthCallback sample_config sample_world issued_db
         callback_request))) = []" by code_simp
  have msg: "rejection_message sample_config callback_request = ''Invalid or expired state''"
    using handleOAuthCallback_rejects_stale_state
      [where cfg = sample_config and req = callback_request] cf wf by blast
  have a: "handleOAuthCallback sample_config later_world issued_db callback_request =
       (Returns (error_redirect sample_config ''Invalid or expired state''), issued_db, [])"
    using handleOAuthCallback_rejects_stale_state
      [where cfg = sample_config and req = callback_request and d = issued_db and w = later_world]
      sp vs msg by simp
  have b: "handleOAuthCallback sample_config sample_world
         (fst (snd (handleOAuthCallback sample_config sample_world issued_db callback_request)))
         callback_request =
       (Returns (error_redirect sample_config ''Invalid or expired state''),
        fst (snd (handleOAuthCallback sample_config sample_world issued_db callback_request)), [])"
    using handleOAuthCallback_rejects_stale_state
      [where cfg = sample_config and req = callback_request and d = issued_db
         and w = sample_world and w' = sample_world] cf wf ss ok sp by simp
  show ?thesis by (intro conjI; fact)
qed

text \<open>
  Against C1 as first stated: a callback without a code whose state is not in the store
  (what GitHub sends when the user denies access) is rejected, but with the message
  \<open>Missing code or state parameter\<close>.
\<close>

theorem handleOAuthCallback_counterexample:
  "state_param denied_request = Some ''state-0''
   \<and> valid_states issued_db ''state-0'' (now sample_world) = []
   \<and> handleOAuthCallback sample_config sample_world issued_db denied_request =
       (Returns (error_redirect sample_config ''Missing code or state parameter''), issued_db, [])
   \<and> location (error_redirect sample_config ''Missing code or state parameter'') =
       Some ''https://app.example.com/project/error?message=Missing%20code%20or%20state%20parameter''
   \<and> error_redirect sample_config ''Missing code or state parameter''
       \<noteq> error_redirect sample_config ''Invalid or expired state''"
  by code_simp

section \<open>The state row after a callback\<close>

lemma callback_identity_ok:
  assumes "exchange_ok w" and "identity_ok w"
  shows "\<exists>accessToken scopes githubUser.
           callback_identity cfg w projectId code = Inr (accessToken, scopes, githubUser)
           \<and> user_id githubUser \<noteq> None"
  using assms
  by (auto simp: callback_identity_def exchange_ok_def identity_ok_def truthy_def
      split: io.splits option.splits)

lemma callback_identity_fails:
  assumes "\<not> (exchange_ok w \<and> identity_ok w)"
  shows "(\<exists>left calls. callback_identity cfg w projectId code = Inl (left, calls))
         \<or> (\<exists>accessToken scopes githubUser.
               callback_identity cfg w projectId code = Inr (accessToken, scopes, githubUser)
               \<and> user_id githubUser = None)"
  using assms
  by (auto simp: callback_identity_def exchange_ok_def identity_ok_def truthy_def Let_def
      split: io.splits option.splits)

lemma callback_persist_states:
  "callback_persist cfg w d oauthState accessToken scopes githubUser = Inr (connectionId, d1)
   \<Longrightarrow> github_oauth_states d1 = github_oauth_states d"
  by (auto simp: callback_persist_def update_connection_def insert_connection_def Let_def
      split: option.splits)

lemma callback_persist_ok:
  assumes "persist_ok w" and "user_id githubUser \<noteq> None"
  shows "\<exists>connectionId d1. callback_persist cfg w d oauthState accessToken scopes githubUser
           = Inr (connectionId, d1)"
  using assms by (auto simp: callback_persist_def persist_ok_def Let_def split: option.splits)

lemma callback_persist_fails:
  assumes "\<not> persist_ok w \<or> user_id githubUser = None"
  shows "\<exists>left. callback_persist cfg w d oauthState accessToken scopes githubUser = Inl left"
  using assms by (auto simp: callback_persist_def persist_ok_def Let_def split: option.splits)

lemma callback_try_states:
  assumes "configured cfg" and "well_formed req"
    and "select_state w d (the (state_param req)) = Some oauthState"
  shows "github_oauth_states (fst (snd (callback_try cfg w d req))) =
           (if exchange_ok w \<and> identity_ok w \<and> persist_ok w
            then filter (\<lambda>s. os_state s \<noteq> the (state_param req)) (github_oauth_states d)
            else github_oauth_states d)"
proof (cases "exchange_ok w \<and> identity_ok w")
  case True
  from callback_identity_ok [of w cfg "os_project_id oauthState" "the (code_param req)"] True
  obtain accessToken scopes githubUser
    where i: "callback_identity cfg w (os_project_id oauthState) (the (code_param req))
                = Inr (accessToken, scopes, githubUser)"
      and u: "user_id githubUser \<noteq> None" by blast
  show ?thesis
  proof (cases "persist_ok w")
    case p: True
    from callback_persist_ok [OF p u] obtain connectionId d1 where
      ps: "callback_persist cfg w d oauthState accessToken scopes githubUser = Inr (connectionId, d1)"
      by blast
    from callback_persist_states [OF ps] have "github_oauth_states d1 = github_oauth_states d" .
    with assms True p i ps show ?thesis
      by (simp add: callback_try_def configured_def well_formed_def
          logAuditEvent_def delete_state_def)
  next
    case p: False
    then obtain left where
      "callback_persist cfg w d oauthState accessToken scopes githubUser = Inl left"
      using callback_persist_fails by blast
    with assms True p i show ?thesis
      by (simp add: callback_try_def configured_def well_formed_def)
  qed
next
  case False
  from callback_identity_fails [of w cfg "os_project_id oauthState" "the (code_param req)"] False
  consider (l) left calls where
      "callback_identity cfg w (os_project_id oauthState) (the (code_param req)) = Inl (left, calls)"
    | (r) accessToken scopes githubUser where
        "callback_identity cfg w (os_project_id oauthState) (the (code_param req))
           = Inr (accessToken, scopes, githubUser)"
        "user_id githubUser = None"
    by blast
  then show ?thesis
  proof cases
    case l
    with assms False show ?thesis
      by (auto simp: callback_try_def configured_def well_formed_def)
  next
    case r
    then obtain left where
      "callback_persist cfg w d oauthState accessToken scopes githubUser = Inl left"
      using callback_persist_fails by blast
    with assms False r show ?thesis
      by (auto simp: callback_try_def configured_def well_formed_def)
  qed
qed

lemma oauth_callback_serve_db:
  "req_method req = ''GET'' \<Longrightarrow>
   fst (snd (oauth_callback_serve cfg w d req)) = fst (snd (callback_try cfg w d req))"
  by (cases "callback_try cfg w d req" rule: prod_cases3)
     (auto simp: oauth_callback_serve_def split: io.splits)

text \<open>
  Claim C2, as amended. In a callback that passed the state validation, the state row is
  deleted exactly when the code exchange, the identity fetch and the write of the
  connection all succeeded; when one of them fails the handler leaves through its error
  redirect (or an exception) and the rows of \<^verbatim>\<open>github_oauth_states\<close> stay as they were.
  So it is in \<^verbatim>\<open>handleOAuthCallback\<close> and in the function \<^verbatim>\<open>github-oauth-callback\<close>.
\<close>

theorem callback_deletes_state_on_success_only:
  "(configured cfg \<and> well_formed req \<and> select_state w d (the (state_param req)) \<noteq> None \<longrightarrow>
      github_oauth_states (fst (snd (handleOAuthCallback cfg w d req))) =
        (if exchange_ok w \<and> identity_ok w \<and> persist_ok w
         then filter (\<lambda>s. os_state s \<noteq> the (state_param req)) (github_oauth_states d)
         else github_oauth_states d))
   \<and> (req_method req = ''GET'' \<and> configured cfg \<and> well_formed req
        \<and> select_state w d (the (state_param req)) \<noteq> None \<longrightarrow>
      github_oauth_states (fst (snd (oauth_callback_serve cfg w d req))) =
        (if exchange_ok w \<and> identity_ok w \<and> persist_ok w
         then filter (\<lambda>s. os_state s \<noteq> the (state_param req)) (github_oauth_states d)
         else github_oauth_states d))"
proof (intro conjI impI)
  assume a: "configured cfg \<and> well_formed req \<and> select_state w d (the (state_param req)) \<noteq> None"
  then obtain oauthState where "select_state w d (the (state_param req)) = Some oauthState"
    by auto
  with a show "github_oauth_states (fst (snd (handleOAuthCallback cfg w d req))) =
        (if exchange_ok w \<and> identity_ok w \<and> persist_ok w
         then filter (\<lambda>s. os_state s \<noteq> the (state_param req)) (github_oauth_states d)
         else github_oauth_states d)"
    using handleOAuthCallback_states [of cfg req w d oauthState] by simp
next
  assume a: "req_method req = ''GET'' \<and> configured cfg \<and> well_formed req
        \<and> select_state w d (the (state_param req)) \<noteq> None"
  then obtain oauthState where "select_state w d (the (state_param req)) = Some oauthState"
    by auto
  with a have "github_oauth_states (fst (snd (callback_try cfg w d req))) =
        (if exchange_ok w \<and> identity_ok w \<and> persist_ok w
         then filter (\<lambda>s. os_state s \<noteq> the (state_param req)) (github_oauth_states d)
         else github_oauth_states d)"
    using callback_try_states [of cfg req w d oauthState] by simp
  with a show "github_oauth_states (fst (snd (oauth_callback_serve cfg w d req))) =
        (if exchange_ok w \<and> identity_ok w \<and> persist_ok w
         then filter (\<lambda>s. os_state s \<noteq> the (state_param req)) (github_oauth_states d)
         else github_oauth_states d)"
    by (simp add: oauth_callback_serve_db)
qed

text \<open>C2 on samples: the state is gone after a callback that ran to the end, and still
  stored after one in which GitHub refused the code.\<close>

theorem callback_deletes_state_on_success_only_witness:
  "req_method callback_request = ''GET'' \<and> configured sample_config \<and> well_formed callback_request
   \<and> the (state_param callback_request) = ''state-1''
   \<and> select_state sample_world issued_db ''state-1'' \<noteq> None
   \<and> select_state refusing_world issued_db ''state-1'' \<noteq> None
   \<and> exchange_ok sample_world \<and> identity_ok sample_world \<and> persist_ok sample_world
   \<and> \<not> exchange_ok refusing_world
   \<and> github_oauth_states (fst (snd (handleOAuthCallback sample_config sample_world issued_db
        callback_request))) = []
   \<and> github_oauth_states (fst (snd (oauth_callback_serve sample_config sample_world issued_db
        callback_request))) = []
   \<and> github_oauth_states (fst (snd (handleOAuthCallback sample_config refusing_world issued_db
        callback_request))) = github_oauth_states issued_db
   \<and> github_oauth_states (fst (snd (oauth_callback_serve sample_config refusing_world issued_db
        callback_request))) = github_oauth_states issued_db"
proof -
  have m: "req_method callback_request = ''GET''" by code_simp
  have cf: "configured sample_config" by code_simp
  have wf: "well_formed callback_request" by code_simp
  have sp: "the (state_param callback_request) = ''state-1''" by code_simp
  have ss: "select_state sample_world issued_db ''state-1'' \<noteq> None" by code_simp
  have sr: "select_state refusing_world issued_db ''state-1'' \<noteq> None" by code_simp
  have ok: "exchange_ok sample_world" "identity_ok sample_world" "persist_ok sample_world"
    by code_simp+
  have no: "\<not> exchange_ok refusing_world" by code_simp
  have f: "filter (\<lambda>s. os_state s \<noteq> ''state-1'') (github_oauth_states issued_db) = []"
    by code_simp
  note t1 = callback_deletes_state_on_success_only
    [where cfg = sample_config and req = callback_request and d = issued_db and w = sample_world]
  note t2 = callback_deletes_state_on_success_only
    [where cfg = sample_config and req = callback_request and d = issued_db and w = refusing_world]
  have a: "github_oauth_states (fst (snd (handleOAuthCallback sample_config sample_world issued_db
        callback_request))) = []"
    using t1 m cf wf sp ss ok f by simp
  have b: "github_oauth_states (fst (snd (oauth_callback_serve sample_config sample_world issued_db
        callback_request))) = []"
    using t1 m cf wf sp ss ok f by simp
  have c: "github_oauth_states (fst (snd (handleOAuthCallback sample_config refusing_world issued_db
        callback_request))) = github_oauth_states issued_db"
    using t2 m cf wf sp sr no by simp
  have e: "github_oauth_states (fst (snd (oauth_callback_serve sample_config refusing_world issued_db
        callback_request))) = github_oauth_states issued_db"
    using t2 m cf wf sp sr no by simp
  show ?thesis by (intro conjI; fact)
qed

text \<open>
  Against C2 as first stated: the callback passes the state validation, GitHub refuses the
  code, and the state row is still in the store when the handler has answered.
\<close>

theorem callback_keeps_state_counterexample:
  "configured sample_config \<and> well_formed callback_request
   \<and> select_state refusing_world issued_db ''state-1'' \<noteq> None
   \<and> handleOAuthCallback sample_config refusing_world issued_db callback_request =
       (Returns (error_redirect sample_config ''Failed to exchange code for token''), issued_db,
        [ExchangeCode ''abc123''])
   \<and> fst (snd (oauth_callback_serve sample_config refusing_world issued_db callback_request))
       = issued_db
   \<and> github_oauth_states issued_db =
       [\<lparr> os_state = ''state-1'', os_project_id = ''p1'', os_user_id = ''alice'',
          os_expires_at = 1300000 \<rparr>]"
  by code_simp

section \<open>The answer of the callback\<close>










section \<open>Revocation and the installation callback\<close>

text \<open>
  The two OAuth callbacks keep the connections of a project and provider at one: an
  update changes neither the project nor the provider of a row, and a row is inserted only
  when the query for the project's GitHub connection found none.
\<close>

lemma update_connection_count:
  assumes "\<And>c. pc_project_id (f c) = pc_project_id c" and "\<And>c. pc_provider (f c) = pc_provider c"
  shows "length (filter (\<lambda>c. pc_project_id c = p \<and> pc_provider c = q)
           (provider_connections (update_connection connectionId f d)))
         = length (filter (\<lambda>c. pc_project_id c = p \<and> pc_provider c = q) (provider_connections d))"
proof -
  have "length (filter (\<lambda>c. pc_project_id c = p \<and> pc_provider c = q)
           (map (\<lambda>c. if pc_id c = connectionId then f c else c) xs))
        = length (filter (\<lambda>c. pc_project_id c = p \<and> pc_provider c = q) xs)" for xs
    by (induction xs) (simp_all add: assms)
  then show ?thesis by (simp add: update_connection_def)
qed

lemma existingConnection_None:
  assumes "existingConnection d projectId = None"
    and "length (filter (\<lambda>c. pc_project_id c = projectId \<and> pc_provider c = ''github'')
           (provider_connections d)) \<le> 1"
  shows "filter (\<lambda>c. pc_project_id c = projectId \<and> pc_provider c = ''github'')
           (provider_connections d) = []"
proof (cases "filter (\<lambda>c. pc_project_id c = projectId \<and> pc_provider c = ''github'')
           (provider_connections d)")
  case Nil
  then show ?thesis .
next
  case (Cons a rest)
  with assms(2) have "rest = []" by simp
  with Cons assms(1) show ?thesis by (simp add: existingConnection_def)
qed

lemma insert_connection_count:
  assumes "pc_provider c = ''github''"
    and "existingConnection d (pc_project_id c) = None"
    and "length (filter (\<lambda>c. pc_project_id c = p \<and> pc_provider c = ''github'')
           (provider_connections d)) \<le> 1"
  shows "length (filter (\<lambda>c. pc_project_id c = p \<and> pc_provider c = ''github'')
           (provider_connections (insert_connection c d))) \<le> 1"
proof (cases "pc_project_id c = p")
  case True
  with assms(2,3) have "filter (\<lambda>c. pc_project_id c = p \<and> pc_provider c = ''github'')
           (provider_connections d) = []"
    using existingConnection_None by blast
  then show ?thesis by (simp add: insert_connection_def)
next
  case False
  then show ?thesis using assms(3) by (simp add: insert_connection_def)
qed

lemma oauth_persist_one_connection:
  assumes "oauth_persist cfg w d oauthState accessToken scopes githubUser = Inr (connectionId, d1)"
    and "length (filter (\<lambda>c. pc_project_id c = p \<and> pc_provider c = ''github'')
           (provider_connections d)) \<le> 1"
  shows "length (filter (\<lambda>c. pc_project_id c = p \<and> pc_provider c = ''github'')
           (provider_connections d1)) \<le> 1"
proof (cases "existingConnection d (os_project_id oauthState)")
  case None
  with assms(1) obtain c where d1: "d1 = insert_connection c d"
    and c: "pc_provider c = ''github''" "pc_project_id c = os_project_id oauthState"
    by (auto simp: oauth_persist_def split: option.splits)
  show ?thesis unfolding d1 using c None assms(2) by (intro insert_connection_count) simp_all
next
  case (Some existing)
  with assms(1) obtain f where d1: "d1 = update_connection (pc_id existing) f d"
    and f: "\<And>c. pc_project_id (f c) = pc_project_id c" "\<And>c. pc_provider (f c) = pc_provider c"
    by (auto simp: oauth_persist_def split: option.splits)
  show ?thesis unfolding d1 using assms(2) by (simp add: update_connection_count f)
qed

lemma callback_persist_one_connection:
  assumes "callback_persist cfg w d oauthState accessToken scopes githubUser = Inr (connectionId, d1)"
    and "length (filter (\<lambda>c. pc_project_id c = p \<and> pc_provider c = ''github'')
           (provider_connections d)) \<le> 1"
  shows "length (filter (\<lambda>c. pc_project_id c = p \<and> pc_provider c = ''github'')
           (provider_connections d1)) \<le> 1"
proof (cases "existingConnection d (os_project_id oauthState)")
  case None
  with assms(1) obtain c where d1: "d1 = insert_connection c d"
    and c: "pc_provider c = ''github''" "pc_project_id c = os_project_id oauthState"
    by (auto simp: callback_persist_def Let_def split: option.splits)
  show ?thesis unfolding d1 using c None assms(2) by (intro insert_connection_count) simp_all
next
  case (Some existing)
  with assms(1) obtain f where d1: "d1 = update_connection (pc_id existing) f d"
    and f: "\<And>c. pc_project_id (f c) = pc_project_id c" "\<And>c. pc_provider (f c) = pc_provider c"
    by (auto simp: callback_persist_def Let_def split: option.splits)
  show ?thesis unfolding d1 using assms(2) by (simp add: update_connection_count f)
qed

lemma handleOAuthCallback_connections:
  "provider_connections (fst (snd (handleOAuthCallback cfg w d req))) = provider_connections d
   \<or> (\<exists>oauthState accessToken scopes githubUser connectionId d1.
         oauth_persist cfg w d oauthState accessToken scopes githubUser = Inr (connectionId, d1)
         \<and> provider_connections (fst (snd (handleOAuthCallback cfg w d req)))
             = provider_connections d1)"
proof (cases "GITHUB_CLIENT_ID cfg = [] \<or> GITHUB_CLIENT_SECRET cfg = [] \<or> GITHUB_REDIRECT_URI cfg = []
              \<or> \<not> truthy (code_param req) \<or> \<not> truthy (state_param req)")
  case True
  then show ?thesis by (auto simp: handleOAuthCallback_def)
next
  case guards: False
  show ?thesis
  proof (cases "select_state w d (the (state_param req))")
    case None
    with guards show ?thesis by (simp add: handleOAuthCallback_def)
  next
    case (Some oauthState)
    show ?thesis
    proof (cases "oauth_identity cfg w (the (code_param req))")
      case (Inl l)
      with guards Some show ?thesis
        by (cases l) (simp add: handleOAuthCallback_def)
    next
      case (Inr r)
      then obtain accessToken scopes githubUser where
        i: "oauth_identity cfg w (the (code_param req)) = Inr (accessToken, scopes, githubUser)"
        by (cases r) auto
      show ?thesis
      proof (cases "oauth_persist cfg w d oauthState accessToken scopes githubUser")
        case (Inl left)
        with guards Some i show ?thesis by (simp add: handleOAuthCallback_def)
      next
        case (Inr p)
        then obtain connectionId d1 where
          ps: "oauth_persist cfg w d oauthState accessToken scopes githubUser = Inr (connectionId, d1)"
          by (cases p) auto
        have "provider_connections (fst (snd (handleOAuthCallback cfg w d req)))
                = provider_connections d1"
          using guards Some i ps
          by (simp add: handleOAuthCallback_def logAuditEvent_def delete_state_def)
        with ps show ?thesis by blast
      qed
    qed
  qed
qed

lemma handleOAuthCallback_one_connection:
  assumes "length (filter (\<lambda>c. pc_project_id c = p \<and> pc_provider c = ''github'')
           (provider_connections d)) \<le> 1"
  shows "length (filter (\<lambda>c. pc_project_id c = p \<and> pc_provider c = ''github'')
           (provider_connections (fst (snd (handleOAuthCallback cfg w d req))))) \<le> 1"
proof -
  from handleOAuthCallback_connections [of cfg w d req] show ?thesis
  proof (elim disjE exE conjE)
    assume "provider_connections (fst (snd (handleOAuthCallback cfg w d req))) = provider_connections d"
    with assms show ?thesis by simp
  next
    fix oauthState accessToken scopes githubUser connectionId d1
    assume ps: "oauth_persist cfg w d oauthState accessToken scopes githubUser = Inr (connectionId, d1)"
      and eq: "provider_connections (fst (snd (handleOAuthCallback cfg w d req)))
                 = provider_connections d1"
    from oauth_persist_one_connection [OF ps assms] show ?thesis unfolding eq .
  qed
qed

lemma callback_try_connections:
  "provider_connections (fst (snd (callback_try cfg w d req))) = provider_connections d
   \<or> (\<exists>oauthState accessToken scopes githubUser connectionId d1.
         callback_persist cfg w d oauthState accessToken scopes githubUser = Inr (connectionId, d1)
         \<and> provider_connections (fst (snd (callback_try cfg w d req))) = provider_connections d1)"
proof (cases "GITHUB_CLIENT_ID cfg = [] \<or> GITHUB_CLIENT_SECRET cfg = [] \<or> GITHUB_REDIRECT_URI cfg = []
              \<or> \<not> truthy (code_param req) \<or> \<not> truthy (state_param req)")
  case True
  then show ?thesis by (auto simp: callback_try_def)
next
  case guards: False
  show ?thesis
  proof (cases "select_state w d (the (state_param req))")
    case None
    with guards show ?thesis by (simp add: callback_try_def)
  next
    case (Some oauthState)
    show ?thesis
    proof (cases "callback_identity cfg w (os_project_id oauthState) (the (code_param req))")
      case (Inl l)
      with guards Some show ?thesis
        by (cases l) (simp add: callback_try_def)
    next
      case (Inr r)
      then obtain accessToken scopes githubUser where
        i: "callback_identity cfg w (os_project_id oauthState) (the (code_param req))
              = Inr (accessToken, scopes, githubUser)"
        by (cases r) auto
      show ?thesis
      proof (cases "callback_persist cfg w d oauthState accessToken scopes githubUser")
        case (Inl left)
        with guards Some i show ?thesis by (simp add: callback_try_def)
      next
        case (Inr p)
        then obtain connectionId d1 where
          ps: "callback_persist cfg w d oauthState accessToken scopes githubUser = Inr (connectionId, d1)"
          by (cases p) auto
        have "provider_connections (fst (snd (callback_try cfg w d req))) = provider_connections d1"
          using guards Some i ps
          by (simp add: callback_try_def logAuditEvent_def delete_state_def)
        with ps show ?thesis by blast
      qed
    qed
  qed
qed

lemma oauth_callback_serve_one_connection:
  assumes "length (filter (\<lambda>c. pc_project_id c = p \<and> pc_provider c = ''github'')
           (provider_connections d)) \<le> 1"
  shows "length (filter (\<lambda>c. pc_project_id c = p \<and> pc_provider c = ''github'')
           (provider_connections (fst (snd (oauth_callback_serve cfg w d req))))) \<le> 1"
proof (cases "req_method req = ''GET''")
  case True
  have served: "fst (snd (oauth_callback_serve cfg w d req)) = fst (snd (callback_try cfg w d req))"
    using True by (rule oauth_callback_serve_db)
  from callback_try_connections [of cfg w d req] show ?thesis
  proof (elim disjE exE conjE)
    assume "provider_connections (fst (snd (callback_try cfg w d req))) = provider_connections d"
    with assms show ?thesis by (simp add: served)
  next
    fix oauthState accessToken scopes githubUser connectionId d1
    assume ps: "callback_persist cfg w d oauthState accessToken scopes githubUser = Inr (connectionId, d1)"
      and eq: "provider_connections (fst (snd (callback_try cfg w d req))) = provider_connections d1"
    from callback_persist_one_connection [OF ps assms] show ?thesis unfolding served eq .
  qed
next
  case False
  with assms show ?thesis by (simp add: oauth_callback_serve_def)
qed

text \<open>
  \<^verbatim>\<open>POST /connection/revoke\<close>, when it answers 200, has found the connection of the project,
  marked it revoked and cleared \<^verbatim>\<open>selected\<close> on every repository of that connection.
\<close>

lemma handleRevokeConnection_clears_selected:
  assumes "status (fst (handleRevokeConnection w d userId projectId)) = 200"
  shows "\<exists>connection. existingConnection d (the projectId) = Some connection
           \<and> (\<forall>c\<in>set (provider_connections (fst (snd (handleRevokeConnection w d userId projectId)))).
                 pc_id c = pc_id connection \<longrightarrow> pc_status c = revoked)
           \<and> (\<forall>r\<in>set (repos (fst (snd (handleRevokeConnection w d userId projectId)))).
                 r_connection_id r = Some (pc_id connection) \<longrightarrow> \<not> r_selected r)"
  using assms
  by (auto simp: handleRevokeConnection_def Let_def json_error_def logAuditEvent_def
      update_connection_def split: option.splits if_splits)

text \<open>
  Claim C8 at a store with one connection and a selected repository of it, the caller an
  administrator of the project. \<^verbatim>\<open>DELETE /connections/:id\<close> marks the connection revoked and
  leaves the repository selected; \<^verbatim>\<open>POST /connection/revoke\<close> on the same store marks it
  revoked and clears the flag.
\<close>

theorem handleDeleteConnection_keeps_selected:
  "repos connected_db = [\<lparr> r_id = ''repo1'', r_connection_id = Some ''conn-0'', r_selected = True \<rparr>]
   \<and> status (fst (handleDeleteConnection sample_world connected_db ''conn-0'' ''alice'')) = 200
   \<and> map pc_status (provider_connections
        (snd (handleDeleteConnection sample_world connected_db ''conn-0'' ''alice''))) = [revoked]
   \<and> repos (snd (handleDeleteConnection sample_world connected_db ''conn-0'' ''alice''))
       = [\<lparr> r_id = ''repo1'', r_connection_id = Some ''conn-0'', r_selected = True \<rparr>]
   \<and> status (fst (handleRevokeConnection sample_world connected_db ''alice'' (Some ''p1''))) = 200
   \<and> map pc_status (provider_connections
        (fst (snd (handleRevokeConnection sample_world connected_db ''alice'' (Some ''p1''))))) = [revoked]
   \<and> repos (fst (snd (handleRevokeConnection sample_world connected_db ''alice'' (Some ''p1''))))
       = [\<lparr> r_id = ''repo1'', r_connection_id = Some ''conn-0'', r_selected = False \<rparr>]"
  by code_simp

text \<open>After \<^verbatim>\<open>DELETE /connections/:id\<close> a repository of the revoked connection is still
  selected.\<close>

theorem handleDeleteConnection_keeps_selected_witness:
  "filter (\<lambda>r. r_connection_id r = Some ''conn-0'' \<and> r_selected r)
     (repos (snd (handleDeleteConnection sample_world connected_db ''conn-0'' ''alice'')))
   = [\<lparr> r_id = ''repo1'', r_connection_id = Some ''conn-0'', r_selected = True \<rparr>]"
proof -
  from handleDeleteConnection_keeps_selected
  have "repos (snd (handleDeleteConnection sample_world connected_db ''conn-0'' ''alice''))
       = [\<lparr> r_id = ''repo1'', r_connection_id = Some ''conn-0'', r_selected = True \<rparr>]"
    by blast
  then show ?thesis by simp
qed

text \<open>
  Claim C5 at a store where project \<open>p1\<close> already has a GitHub connection. The callback of
  the GitHub App installation inserts without looking for it, and the project ends with
  two active connections for the same provider.
\<close>

theorem handleCallback_inserts_second_connection:
  "map (\<lambda>c. (pc_id c, pc_project_id c, pc_provider c, pc_status c)) (provider_connections connected_db)
     = [(''conn-0'', ''p1'', ''github'', active)]
   \<and> status (fst (handleCallback sample_world (Returns octo_installation) connected_db ''alice''
        install_body)) = 200
   \<and> map (\<lambda>c. (pc_id c, pc_project_id c, pc_provider c, pc_status c))
        (provider_connections (fst (snd (handleCallback sample_world (Returns octo_installation)
           connected_db ''alice'' install_body))))
     = [(''conn-0'', ''p1'', ''github'', active), (''conn-1'', ''p1'', ''github'', active)]"
  by code_simp

text \<open>Counted: after the installation callback two connections of project \<open>p1\<close> are for
  GitHub.\<close>

theorem handleCallback_inserts_second_connection_witness:
  "length (filter (\<lambda>c. pc_project_id c = ''p1'' \<and> pc_provider c = ''github'')
     (provider_connections (fst (snd (handleCallback sample_world (Returns octo_installation)
        connected_db ''alice'' install_body))))) = 2"
proof -
  from handleCallback_inserts_second_connection obtain x y where
    xs: "provider_connections (fst (snd (handleCallback sample_world (Returns octo_installation)
           connected_db ''alice'' install_body))) = [x, y]"
    and x: "pc_project_id x = ''p1''" "pc_provider x = ''github''"
    and y: "pc_project_id y = ''p1''" "pc_provider y = ''github''"
    by (auto simp: map_eq_Cons_conv)
  show ?thesis unfolding xs using x y by simp
qed

end
